theory Spec2Isabelle
  imports Complex_Main
begin

section \<open>Python results and numpy arrays\<close>

text \<open>
  The module \<^verbatim>\<open>visread/process.py\<close> is a set of pure functions over numpy arrays.
  An array is modelled as numpy stores it: a shape and a row-major buffer of elements.
  Every exception the code can raise is a value of \<open>error\<close>, and a function that
  can raise returns \<open>error + 'a\<close>.

  Element arithmetic is left to the element type: the definitions only use the
  operations \<open>+\<close>, \<open>-\<close>, \<open>*\<close>, \<open>/\<close> and \<open><\<close> of the type, so the structural theorems
  (which elements are combined, and how) hold for every interpretation of these
  operations. Floating-point rounding and the non-finite values numpy produces on a
  division by zero (inf, nan, with a warning and no exception) are not represented:
  a theorem says that such a division returns, never what its entries are. Theorems
  that speak about values are stated on \<open>real\<close> and \<open>complex\<close>. Where Python itself
  raises on a float operation (a zero divisor, a power that overflows), the error is a
  branch of the model.
  Axes and indices are natural numbers: Python's negative indices are not modelled.
\<close>

datatype error =
    NameError string
  | TypeError
  | IndexError
  | AxisError
  | ValueError
  | ZeroDivisionError
  | OverflowError
  | AssertionError string
  | RuntimeError string "nat list list"

definition and_then :: "error + 'a \<Rightarrow> ('a \<Rightarrow> error + 'b) \<Rightarrow> error + 'b" where
  "and_then m f = (case m of Inl e \<Rightarrow> Inl e | Inr x \<Rightarrow> f x)"

datatype 'a ndarray = NDArray (shape: "nat list") (elems: "'a list")

definition well_shaped :: "'a ndarray \<Rightarrow> bool" where
  "well_shaped a \<longleftrightarrow> length (elems a) = prod_list (shape a)"

text \<open>All multi-indices of a shape, in row-major (C) order, and the offset of a
  multi-index in the buffer.\<close>

fun indices :: "nat list \<Rightarrow> nat list list" where
  "indices [] = [[]]"
| "indices (n # s) = concat (map (\<lambda>i. map ((#) i) (indices s)) [0..<n])"

fun ravel :: "nat list \<Rightarrow> nat list \<Rightarrow> nat" where
  "ravel (n # s) (i # idx) = i * prod_list s + ravel s idx"
| "ravel s idx = 0"

definition in_bounds :: "nat list \<Rightarrow> nat list \<Rightarrow> bool" where
  "in_bounds s idx \<longleftrightarrow> list_all2 (<) idx s"

definition item :: "'a ndarray \<Rightarrow> nat list \<Rightarrow> 'a" where
  "item a idx = elems a ! ravel (shape a) idx"

definition fromfunction :: "nat list \<Rightarrow> (nat list \<Rightarrow> 'a) \<Rightarrow> 'a ndarray" where
  "fromfunction s f = NDArray s (map f (indices s))"

definition scalar :: "'a \<Rightarrow> 'a ndarray" where
  "scalar x = NDArray [] [x]"

definition ones :: "nat list \<Rightarrow> 'a::one ndarray" where
  "ones s = fromfunction s (\<lambda>idx. 1)"

definition map_array :: "('a \<Rightarrow> 'b) \<Rightarrow> 'a ndarray \<Rightarrow> 'b ndarray" where
  "map_array f a = NDArray (shape a) (map f (elems a))"

text \<open>\<^verbatim>\<open>len(a)\<close>: the first dimension; a 0-d array has no length.\<close>

definition len_array :: "'a ndarray \<Rightarrow> error + nat" where
  "len_array a = (case shape a of [] \<Rightarrow> Inl TypeError | n # s \<Rightarrow> Inr n)"

subsection \<open>Broadcasting\<close>

text \<open>numpy aligns two shapes at their last axis, pads the shorter one with leading
  1s, and accepts a pair of dimensions when they are equal or one of them is 1.\<close>

definition pad_shape :: "nat \<Rightarrow> nat list \<Rightarrow> nat list" where
  "pad_shape r s = replicate (r - length s) 1 @ s"

definition broadcast_shapes :: "nat list \<Rightarrow> nat list \<Rightarrow> nat list option" where
  "broadcast_shapes s t =
     (let r = max (length s) (length t); ps = pad_shape r s; pt = pad_shape r t
      in if list_all2 (\<lambda>m n. m = n \<or> m = 1 \<or> n = 1) ps pt
         then Some (map2 (\<lambda>m n. if m = 1 then n else m) ps pt)
         else None)"

definition operand_index :: "nat list \<Rightarrow> nat list \<Rightarrow> nat list" where
  "operand_index s idx =
     map2 (\<lambda>d i. if d = 1 then 0 else i) s (drop (length idx - length s) idx)"

definition broadcast_op ::
  "('a \<Rightarrow> 'b \<Rightarrow> 'c) \<Rightarrow> 'a ndarray \<Rightarrow> 'b ndarray \<Rightarrow> error + 'c ndarray" where
  "broadcast_op f a b =
     (case broadcast_shapes (shape a) (shape b) of
        None \<Rightarrow> Inl ValueError
      | Some s \<Rightarrow> Inr (fromfunction s (\<lambda>idx.
          f (item a (operand_index (shape a) idx)) (item b (operand_index (shape b) idx)))))"

definition multiply :: "'a::times ndarray \<Rightarrow> 'a ndarray \<Rightarrow> error + 'a ndarray" where
  "multiply = broadcast_op (*)"

definition true_divide :: "'a::inverse ndarray \<Rightarrow> 'a ndarray \<Rightarrow> error + 'a ndarray" where
  "true_divide = broadcast_op (/)"

subsection \<open>Reductions, indexing and reversal\<close>

text \<open>\<^verbatim>\<open>np.add.reduce\<close> starts from the first element; the empty sum is 0.\<close>

fun add_reduce :: "'a::{zero,plus} list \<Rightarrow> 'a" where
  "add_reduce [] = 0"
| "add_reduce (x # xs) = foldl (+) x xs"

definition remove_axis :: "nat \<Rightarrow> 'b list \<Rightarrow> 'b list" where
  "remove_axis k s = take k s @ drop (Suc k) s"

definition insert_axis :: "nat \<Rightarrow> 'b \<Rightarrow> 'b list \<Rightarrow> 'b list" where
  "insert_axis k i idx = take k idx @ i # drop k idx"

text \<open>\<^verbatim>\<open>np.sum(a, axis=k)\<close>. On a 0-d array numpy accepts the axis 0 and returns the
  element; every other axis the array does not have is an AxisError.\<close>

definition np_sum :: "'a::{zero,plus} ndarray \<Rightarrow> nat \<Rightarrow> error + 'a ndarray" where
  "np_sum a axis =
     (if shape a = []
      then (if axis = 0 then Inr (scalar (item a [])) else Inl AxisError)
      else if axis < length (shape a)
      then Inr (fromfunction (remove_axis axis (shape a)) (\<lambda>idx.
             add_reduce (map (\<lambda>k. item a (insert_axis axis k idx)) [0..<shape a ! axis])))
      else Inl AxisError)"

text \<open>\<^verbatim>\<open>a[:, ..., np.newaxis, :, ...]\<close> with \<open>k\<close> slices before the new axis and \<open>m\<close>
  after it: the buffer is unchanged, a dimension 1 is inserted at position \<open>k\<close>;
  more slices than axes is an IndexError.\<close>

definition expand_dims :: "nat \<Rightarrow> nat \<Rightarrow> 'a ndarray \<Rightarrow> error + 'a ndarray" where
  "expand_dims k m a =
     (if k + m \<le> length (shape a)
      then Inr (NDArray (take k (shape a) @ 1 # drop k (shape a)) (elems a))
      else Inl IndexError)"

text \<open>\<^verbatim>\<open>a[i]\<close> for an integer \<open>i \<ge> 0\<close>.\<close>

definition getitem :: "'a ndarray \<Rightarrow> nat \<Rightarrow> error + 'a ndarray" where
  "getitem a i =
     (case shape a of
        [] \<Rightarrow> Inl IndexError
      | n # s \<Rightarrow> if i < n then Inr (fromfunction s (\<lambda>idx. item a (i # idx)))
                else Inl IndexError)"

text \<open>The array with the order of its entries along one of its axes reversed, as
  \<^verbatim>\<open>np.flip(a, axis)\<close> and a slice \<^verbatim>\<open>::-1\<close> give it.\<close>

definition flip :: "nat \<Rightarrow> 'a ndarray \<Rightarrow> 'a ndarray" where
  "flip axis a =
     fromfunction (shape a) (\<lambda>idx. item a (idx[axis := shape a ! axis - 1 - idx ! axis]))"

text \<open>\<^verbatim>\<open>a[::-1]\<close> and \<^verbatim>\<open>a[:, ::-1, :]\<close>: an index of \<open>nslices\<close> slices, the one at position
  \<open>axis\<close> reversed; more slices than axes is an IndexError.\<close>

definition slice_reversed :: "nat \<Rightarrow> nat \<Rightarrow> 'a ndarray \<Rightarrow> error + 'a ndarray" where
  "slice_reversed axis nslices a =
     (if nslices \<le> length (shape a) then Inr (flip axis a) else Inl IndexError)"

text \<open>\<^verbatim>\<open>np.diff(a)\<close>: first differences along the last axis.\<close>

definition np_diff :: "'a::minus ndarray \<Rightarrow> error + 'a ndarray" where
  "np_diff a =
     (if shape a = [] then Inl ValueError
      else Inr (fromfunction (butlast (shape a) @ [last (shape a) - 1]) (\<lambda>idx.
             item a (butlast idx @ [Suc (last idx)]) - item a idx)))"

definition np_all :: "bool ndarray \<Rightarrow> bool" where
  "np_all a = list_all (\<lambda>b. b) (elems a)"

text \<open>The truth value of an array in a condition: defined for one element only.\<close>

definition truth :: "bool ndarray \<Rightarrow> error + bool" where
  "truth a = (case elems a of [b] \<Rightarrow> Inr b | _ \<Rightarrow> Inl ValueError)"

text \<open>\<^verbatim>\<open>np.sum(mask)\<close> of a boolean array counts its true entries.\<close>

definition count_true :: "bool ndarray \<Rightarrow> int" where
  "count_true a = add_reduce (map of_bool (elems a))"

text \<open>\<^verbatim>\<open>np.where(cond)[0]\<close>: the first coordinates of the true entries, in row-major
  order; numpy refuses a 0-d condition.\<close>

definition where0 :: "bool ndarray \<Rightarrow> error + nat ndarray" where
  "where0 cond =
     (if shape cond = [] then Inl ValueError
      else let hits = filter (item cond) (indices (shape cond))
           in Inr (NDArray [length hits] (map hd hits)))"

text \<open>\<^verbatim>\<open>x, y, z = a\<close>: unpacking iterates over the first axis.\<close>

definition unpack3 :: "'a ndarray \<Rightarrow> error + ('a ndarray \<times> 'a ndarray \<times> 'a ndarray)" where
  "unpack3 a =
     (case shape a of
        [] \<Rightarrow> Inl TypeError
      | n # s \<Rightarrow>
          if n = 3
          then and_then (getitem a 0) (\<lambda>x. and_then (getitem a 1) (\<lambda>y.
               and_then (getitem a 2) (\<lambda>z. Inr (x, y, z))))
          else Inl ValueError)"

section \<open>Python values of the module's arguments\<close>

text \<open>Arguments documented as "float or np.array": a Python float divides with a
  ZeroDivisionError on a zero divisor, a numpy value (an array or a numpy scalar)
  divides element by element and never raises. A \<^verbatim>\<open>data_shape\<close> argument is a tuple;
  the pipeline also passes an integer, which cannot be subscripted.\<close>

datatype 'a pyval = PyFloat 'a | NdArray "'a ndarray"

datatype pyobj = PyTuple "nat list" | PyInt nat

definition as_array :: "'a pyval \<Rightarrow> 'a ndarray" where
  "as_array x = (case x of PyFloat v \<Rightarrow> scalar v | NdArray a \<Rightarrow> a)"

definition py_mul :: "'a::times pyval \<Rightarrow> 'a pyval \<Rightarrow> error + 'a pyval" where
  "py_mul x y =
     (case (x, y) of
        (PyFloat a, PyFloat b) \<Rightarrow> Inr (PyFloat (a * b))
      | _ \<Rightarrow> and_then (multiply (as_array x) (as_array y)) (\<lambda>r. Inr (NdArray r)))"

definition py_truediv :: "'a::{inverse,zero} pyval \<Rightarrow> 'a pyval \<Rightarrow> error + 'a pyval" where
  "py_truediv x y =
     (case (x, y) of
        (PyFloat a, PyFloat b) \<Rightarrow> if b = 0 then Inl ZeroDivisionError else Inr (PyFloat (a / b))
      | _ \<Rightarrow> and_then (true_divide (as_array x) (as_array y)) (\<lambda>r. Inr (NdArray r)))"

text \<open>
  \<^verbatim>\<open>x ** n\<close> on a Python float. A float is a binary64 number, taken here as the real
  it stands for. Python raises OverflowError when the power rounds to infinity, which
  under round-to-nearest is from \<open>2^1024 - 2^970\<close> on, and returns \<open>0.0\<close> without an
  error when it rounds to zero, which is up to \<open>2^-1075\<close>. In between the power is
  taken as exact.
\<close>

definition overflow_bound :: real where
  "overflow_bound = 2 ^ 1024 - 2 ^ 970"

definition underflow_bound :: real where
  "underflow_bound = 1 / 2 ^ 1075"

definition py_float_pow :: "real \<Rightarrow> nat \<Rightarrow> error + real" where
  "py_float_pow x n =
     (if overflow_bound \<le> \<bar>x ^ n\<bar> then Inl OverflowError
      else if \<bar>x ^ n\<bar> \<le> underflow_bound then Inr 0
      else Inr (x ^ n))"

definition subscript :: "pyobj \<Rightarrow> nat \<Rightarrow> error + nat" where
  "subscript obj i =
     (case obj of
        PyInt n \<Rightarrow> Inl TypeError
      | PyTuple t \<Rightarrow> if i < length t then Inr (t ! i) else Inl IndexError)"

section \<open>The functions of process.py\<close>

subsection \<open>Weights\<close>

definition broadcast_weights ::
  "'a::{one,times} ndarray \<Rightarrow> pyobj \<Rightarrow> nat \<Rightarrow> error + 'a ndarray" where
  "broadcast_weights weight data_shape chan_axis =
     and_then (subscript data_shape chan_axis) (\<lambda>nchan.
       let broadcast = ones [nchan, 1]
       in and_then (expand_dims 0 1 weight) (\<lambda>w. multiply w broadcast))"

definition rescale_weights :: "real pyval \<Rightarrow> real \<Rightarrow> error + real pyval" where
  "rescale_weights weight sigma_rescale =
     and_then (py_float_pow sigma_rescale 2) (\<lambda>squared. py_truediv weight (PyFloat squared))"

definition average_weight_polarization ::
  "'a::{zero,plus} ndarray \<Rightarrow> nat \<Rightarrow> error + 'a ndarray" where
  "average_weight_polarization weight polarization_axis = np_sum weight polarization_axis"

subsection \<open>Baselines\<close>

text \<open>\<^verbatim>\<open>astropy.constants.c.value\<close>, the speed of light in m/s, is a numpy scalar, so a
  division of it never raises; the literal \<^verbatim>\<open>1e-3\<close> of the code is a Python float,
  written \<open>1 / 1000\<close>.\<close>

definition c_value :: real where
  "c_value = 299792458"

definition convert_baselines :: "real pyval \<Rightarrow> real pyval \<Rightarrow> error + real pyval" where
  "convert_baselines baselines freq =
     and_then (py_truediv (NdArray (scalar c_value)) freq) (\<lambda>wavelengths.
     and_then (py_mul (PyFloat (1 / 1000)) baselines) (\<lambda>scaled.
       py_truediv scaled wavelengths))"

definition broadcast_and_convert_baselines ::
  "real ndarray \<Rightarrow> real ndarray \<Rightarrow> real ndarray \<Rightarrow> error + (real ndarray \<times> real ndarray)" where
  "broadcast_and_convert_baselines u v chan_freq =
     and_then (len_array chan_freq) (\<lambda>nchan.
       let broadcast = ones [nchan, 1]
       in and_then (multiply u broadcast) (\<lambda>uu.
          and_then (multiply v broadcast) (\<lambda>vv.
          and_then (expand_dims 1 0 chan_freq) (\<lambda>column.
          and_then (true_divide (scalar c_value) column) (\<lambda>wavelengths.
          and_then (and_then (multiply (scalar (1 / 1000)) uu)
                      (\<lambda>scaled. true_divide scaled wavelengths)) (\<lambda>uu.
          and_then (and_then (multiply (scalar (1 / 1000)) vv)
                      (\<lambda>scaled. true_divide scaled wavelengths)) (\<lambda>vv.
            Inr (uu, vv))))))))"

subsection \<open>Polarization average\<close>

text \<open>The weight array is taken at the element type of the data (numpy casts the
  float weights to complex before it multiplies and divides).\<close>

definition average_data_polarization ::
  "'a::{zero,plus,times,inverse} ndarray \<Rightarrow> 'a ndarray \<Rightarrow> nat \<Rightarrow> error + 'a ndarray" where
  "average_data_polarization data weight polarization_axis =
     (if \<not> polarization_axis < length (shape data) then Inl IndexError
      else if shape data ! polarization_axis \<noteq> 2
        then Inl (AssertionError ''Not recognized as a dual-polarization dataset'')
      else
        and_then (average_weight_polarization weight polarization_axis) (\<lambda>norm_w.
          if length (shape data) = length (shape weight) then
            and_then (multiply data weight) (\<lambda>weighted.
            and_then (np_sum weighted polarization_axis) (\<lambda>total.
              true_divide total norm_w))
          else if length (shape data) = 3 \<and> length (shape weight) = 2 then
            and_then (expand_dims 1 1 weight) (\<lambda>weight3.
            and_then (multiply data weight3) (\<lambda>weighted.
            and_then (np_sum weighted polarization_axis) (\<lambda>total.
              true_divide total norm_w)))
          else
            Inl (RuntimeError
              ''I don't know what to do with provided data and weight arrays with shapes {:} and {:}, respectively''
              [shape data, shape weight])))"

subsection \<open>Autocorrelations\<close>

definition contains_autocorrelations :: "int ndarray \<Rightarrow> int ndarray \<Rightarrow> error + bool" where
  "contains_autocorrelations ant1 ant2 =
     and_then (broadcast_op (=) ant1 ant2) (\<lambda>autocorrelation_mask.
       Inr (count_true autocorrelation_mask > 0))"

definition get_crosscorrelation_indexes ::
  "int ndarray \<Rightarrow> int ndarray \<Rightarrow> error + nat ndarray" where
  "get_crosscorrelation_indexes ant1 ant2 =
     and_then (broadcast_op (\<noteq>) ant1 ant2) (\<lambda>cross. where0 cross)"

subsection \<open>Channel order\<close>

definition isdecreasing :: "'a::{minus,zero,ord} ndarray \<Rightarrow> error + bool" where
  "isdecreasing chan_freq =
     and_then (len_array chan_freq) (\<lambda>nchan.
       if nchan = 1 then Inr True
       else and_then (np_diff chan_freq) (\<lambda>diff.
         if np_all (map_array (\<lambda>d. d < 0) diff) then Inr True
         else if np_all (map_array (\<lambda>d. d > 0) diff) then Inr False
         else Inl (RuntimeError
           ''chan_freq array is neither strictly decreasing nor strictly increasing, investigate what went wrong.''
           [])))"

text \<open>What the measurement-set readers \<^verbatim>\<open>get_channels\<close> and \<^verbatim>\<open>query_datadescid\<close>
  return for one file and spectral window. The readers belong to the external
  measurement-set interface and are taken as given.\<close>

record visibility_query =
  chan_freq_in :: "real ndarray"
  uvw_in :: "real ndarray"
  data_in :: "complex ndarray"
  model_data_in :: "complex ndarray"
  flag_in :: "bool ndarray"
  weight_in :: "real ndarray"
  antenna1_in :: "int ndarray"
  antenna2_in :: "int ndarray"

definition get_channel_sorted_data ::
  "visibility_query \<Rightarrow>
     error + (real ndarray \<times> complex ndarray \<times> complex ndarray \<times> bool ndarray)" where
  "get_channel_sorted_data q =
     (let chan_freq = chan_freq_in q
      in and_then (len_array chan_freq) (\<lambda>nchan.
         let data = data_in q; model_data = model_data_in q; flag = flag_in q
         in and_then
              (if nchan > 1
               then and_then (getitem chan_freq 1) (\<lambda>second.
                    and_then (getitem chan_freq 0) (\<lambda>first.
                    and_then (broadcast_op (>) second first) truth))
               else Inr False) (\<lambda>increasing.
            if increasing then
              and_then (slice_reversed 0 1 chan_freq) (\<lambda>chan_freq.
              and_then (slice_reversed 1 3 data) (\<lambda>data.
              and_then (slice_reversed 1 3 model_data) (\<lambda>model_data.
              and_then (slice_reversed 1 3 flag) (\<lambda>flag.
                Inr (chan_freq, data, model_data, flag)))))
            else Inr (chan_freq, data, model_data, flag))))"

subsection \<open>The pipeline\<close>

text \<open>The dictionary \<^verbatim>\<open>get_processed_visibilities\<close> is written to return.\<close>

record processed_visibilities =
  frequencies :: "real ndarray"
  uu_out :: "real ndarray"
  vv_out :: "real ndarray"
  data_out :: "complex ndarray"
  model_data_out :: "complex ndarray"
  flag_out :: "bool ndarray"
  weight_out :: "real ndarray"

text \<open>
  After the channels are sorted and \<^verbatim>\<open>query["uvw"]\<close> is unpacked, the function calls
  \<^verbatim>\<open>broadcast_baselines\<close>. The module defines and imports no such name (its function is
  called \<^verbatim>\<open>broadcast_and_convert_baselines\<close>), so Python raises NameError there and no
  later statement of the body runs.
\<close>

definition get_processed_visibilities ::
  "visibility_query \<Rightarrow> real \<Rightarrow> bool \<Rightarrow> error + processed_visibilities" where
  "get_processed_visibilities q sigma_rescale model_data =
     and_then (get_channel_sorted_data q) (\<lambda>(chan_freq, data, model_data, flag).
     and_then (len_array chan_freq) (\<lambda>nchan.
     and_then (unpack3 (uvw_in q)) (\<lambda>(uu, vv, ww).
       Inl (NameError ''broadcast_baselines''))))"

section \<open>A synthetic query\<close>

text \<open>One spectral window with two channels of increasing frequency, two polarizations
  and three baselines, the second of which is an autocorrelation (antenna 0 with itself).\<close>

definition example_query :: visibility_query where
  "example_query =
     \<lparr> chan_freq_in = NDArray [2] [1, 2],
       uvw_in = NDArray [3, 3] [10, 20, 30, 40, 50, 60, 70, 80, 90],
       data_in = NDArray [2, 2, 3] [1, 2, 3, 4, 5, 6, 7, 8, 9, 10, 11, 12],
       model_data_in = NDArray [2, 2, 3] [1, 2, 3, 4, 5, 6, 7, 8, 9, 10, 11, 12],
       flag_in = NDArray [2, 2, 3]
         [True, False, False, False, False, False, False, False, False, False, False, False],
       weight_in = NDArray [2, 3] [1, 1, 1, 2, 2, 2],
       antenna1_in = NDArray [3] [0, 0, 1],
       antenna2_in = NDArray [3] [1, 0, 2] \<rparr>"

section \<open>Auxiliary arrays of the proofs\<close>

text \<open>The intermediate arrays of \<^verbatim>\<open>broadcast_and_convert_baselines\<close> on a baseline
  vector of length \<open>nvis\<close> and \<open>nchan\<close> channel frequencies.\<close>

definition ones_product :: "nat \<Rightarrow> nat \<Rightarrow> real ndarray \<Rightarrow> real ndarray" where
  "ones_product nchan nvis u =
     fromfunction [nchan, nvis] (\<lambda>idx. item u [idx ! 1] * item (ones [nchan, 1]) [idx ! 0, 0])"

definition wavelength_column :: "nat \<Rightarrow> real ndarray \<Rightarrow> real ndarray" where
  "wavelength_column nchan chan_freq =
     fromfunction [nchan, 1]
       (\<lambda>idx. item (scalar c_value) [] / item (NDArray [nchan, 1] (elems chan_freq)) idx)"

definition converted :: "nat \<Rightarrow> nat \<Rightarrow> real ndarray \<Rightarrow> real ndarray \<Rightarrow> real ndarray" where
  "converted nchan nvis chan_freq u =
     fromfunction [nchan, nvis] (\<lambda>idx.
        1 / 1000 * elems u ! (idx ! 1) / (c_value / elems chan_freq ! (idx ! 0)))"

section \<open>Arrays: indexing and broadcasting lemmas\<close>

subsection \<open>Row-major enumeration\<close>

lemma length_concat_uniform:
  "(\<And>i. i < n \<Longrightarrow> length (g i) = p) \<Longrightarrow> length (concat (map g [0..<n])) = n * p"
  by (induction n) simp_all

lemma div_block:
  fixes k n p :: nat
  assumes "n * p \<le> k" "k < n * p + p"
  shows "k div p = n"
  using assms by (intro div_nat_eqI) (simp_all add: mult.commute)

lemma mod_block:
  fixes k n p :: nat
  assumes "n * p \<le> k" "k < n * p + p"
  shows "k mod p = k - n * p"
  using div_block[OF assms] by (metis minus_mult_div_eq_mod mult.commute)

lemma nth_concat_uniform:
  assumes "\<And>i. i < n \<Longrightarrow> length (g i) = p" "k < n * p"
  shows "concat (map g [0..<n]) ! k = g (k div p) ! (k mod p)"
  using assms
proof (induction n)
  case 0
  then show ?case by simp
next
  case (Suc n)
  have len: "length (concat (map g [0..<n])) = n * p"
    using Suc.prems(1) by (simp add: length_concat_uniform)
  show ?case
  proof (cases "k < n * p")
    case True
    then show ?thesis using Suc len by (simp add: nth_append)
  next
    case False
    then have lo: "n * p \<le> k" by simp
    have hi: "k < n * p + p" using Suc.prems(2) by simp
    have "k div p = n" "k mod p = k - n * p"
      using div_block[OF lo hi] mod_block[OF lo hi] by simp_all
    then show ?thesis using False len by (simp add: nth_append)
  qed
qed

lemma length_indices: "length (indices s) = prod_list s"
  by (induction s) (simp_all add: length_concat_uniform)

lemma set_indices: "set (indices s) = {idx. in_bounds s idx}"
proof (induction s)
  case Nil
  then show ?case by (auto simp: in_bounds_def)
next
  case (Cons n s)
  show ?case
  proof (rule set_eqI)
    fix idx
    show "idx \<in> set (indices (n # s)) \<longleftrightarrow> idx \<in> {idx. in_bounds (n # s) idx}"
      using Cons by (cases idx) (auto simp: in_bounds_def)
  qed
qed

lemma ravel_less: "in_bounds s idx \<Longrightarrow> ravel s idx < prod_list s"
proof (induction s idx rule: ravel.induct)
  case (1 n s i idx)
  then have i: "i < n" and r: "ravel s idx < prod_list s"
    by (simp_all add: in_bounds_def)
  have "i * prod_list s + ravel s idx < i * prod_list s + prod_list s"
    using r by simp
  also have "\<dots> = Suc i * prod_list s" by simp
  also have "\<dots> \<le> n * prod_list s"
    using i by (intro mult_le_mono1) simp
  finally show ?case by simp
qed (simp_all add: in_bounds_def)

lemma nth_indices_ravel: "in_bounds s idx \<Longrightarrow> indices s ! ravel s idx = idx"
proof (induction s idx rule: ravel.induct)
  case (1 n s i idx)
  then have i: "i < n" and b: "in_bounds s idx"
    by (simp_all add: in_bounds_def)
  let ?p = "prod_list s"
  have r: "ravel s idx < ?p" using b by (rule ravel_less)
  have k: "i * ?p + ravel s idx < n * ?p"
    using ravel_less[of "n # s" "i # idx"] "1.prems" by simp
  have d: "(i * ?p + ravel s idx) div ?p = i" and m: "(i * ?p + ravel s idx) mod ?p = ravel s idx"
    using r by simp_all
  have "indices (n # s) ! (i * ?p + ravel s idx)
      = map ((#) i) (indices s) ! ravel s idx"
    using nth_concat_uniform[where g = "\<lambda>i. map ((#) i) (indices s)" and n = n and p = ?p, OF _ k]
    using r by (simp add: length_indices)
  also have "\<dots> = i # idx"
    using r "1.IH"[OF b] by (simp add: length_indices)
  finally show ?case by simp
qed (simp_all add: in_bounds_def)

lemma ravel_nth_indices: "k < prod_list s \<Longrightarrow> ravel s (indices s ! k) = k"
proof (induction s arbitrary: k)
  case Nil
  then show ?case by simp
next
  case (Cons n s)
  let ?p = "prod_list s"
  have k: "k < n * ?p" using Cons.prems by simp
  then have p: "0 < ?p" by (cases "?p = 0") simp_all
  have dn: "k div ?p < n" using k by (simp add: less_mult_imp_div_less)
  have m: "k mod ?p < ?p" using p by simp
  have "indices (n # s) ! k = map ((#) (k div ?p)) (indices s) ! (k mod ?p)"
    using nth_concat_uniform[where g = "\<lambda>i. map ((#) i) (indices s)" and n = n and p = ?p, OF _ k]
    by (simp add: length_indices)
  also have "\<dots> = (k div ?p) # (indices s ! (k mod ?p))"
    using m by (simp add: length_indices)
  finally show ?case using Cons.IH[OF m] by simp
qed

lemma item_fromfunction: "in_bounds s idx \<Longrightarrow> item (fromfunction s f) idx = f idx"
  by (simp add: item_def fromfunction_def ravel_less length_indices nth_indices_ravel)

lemma shape_fromfunction: "shape (fromfunction s f) = s"
  by (simp add: fromfunction_def)

lemma well_shaped_fromfunction: "well_shaped (fromfunction s f)"
  by (simp add: fromfunction_def well_shaped_def length_indices)

lemma fromfunction_item: "well_shaped a \<Longrightarrow> fromfunction (shape a) (item a) = a"
  by (cases a) (auto simp: fromfunction_def well_shaped_def item_def length_indices
      ravel_nth_indices intro!: nth_equalityI)

lemma fromfunction_cong:
  "(\<And>idx. in_bounds s idx \<Longrightarrow> f idx = g idx) \<Longrightarrow> fromfunction s f = fromfunction s g"
  by (simp add: fromfunction_def set_indices)


subsection \<open>Broadcasting with equal shapes and with scalars\<close>

lemma item_scalar: "item (scalar x) idx = x"
  by (cases idx) (simp_all add: item_def scalar_def)

lemma in_bounds_Nil: "in_bounds [] idx \<longleftrightarrow> idx = []"
  by (simp add: in_bounds_def)

lemma in_bounds_Cons:
  "in_bounds (n # s) idx \<longleftrightarrow> (\<exists>i r. idx = i # r \<and> i < n \<and> in_bounds s r)"
  by (cases idx) (simp_all add: in_bounds_def)

lemma in_bounds_length: "in_bounds s idx \<Longrightarrow> length idx = length s"
  by (simp add: in_bounds_def list_all2_lengthD)

lemma in_bounds_nth: "in_bounds s idx \<Longrightarrow> k < length s \<Longrightarrow> idx ! k < s ! k"
  by (simp add: in_bounds_def list_all2_nthD2)

lemma operand_index_same: "in_bounds s idx \<Longrightarrow> operand_index s idx = idx"
  unfolding operand_index_def in_bounds_def
proof (induction idx s rule: list_all2_induct)
  case Nil
  then show ?case by simp
next
  case (Cons i idx n s)
  then have "length idx = length s" by (simp add: list_all2_lengthD)
  then show ?case using Cons by auto
qed

lemma operand_index_Nil: "operand_index [] idx = []"
  by (simp add: operand_index_def)

lemma broadcast_shapes_same: "broadcast_shapes s s = Some s"
proof -
  have "list_all2 (\<lambda>m n. m = n \<or> m = 1 \<or> n = 1) s s"
    by (simp add: list_all2_same)
  moreover have "map2 (\<lambda>m n. if m = 1 then n else m) s s = s"
    by (induction s) auto
  ultimately show ?thesis
    by (simp add: broadcast_shapes_def pad_shape_def)
qed

lemma broadcast_shapes_scalar_right: "broadcast_shapes s [] = Some s"
proof -
  have "list_all2 (\<lambda>m n. m = n \<or> m = 1 \<or> n = 1) s (replicate (length s) 1)"
    by (induction s) auto
  moreover have "map2 (\<lambda>m n. if m = 1 then n else m) s (replicate (length s) 1) = s"
    by (induction s) auto
  ultimately show ?thesis
    by (simp add: broadcast_shapes_def pad_shape_def)
qed

lemma broadcast_shapes_scalar_left: "broadcast_shapes [] s = Some s"
proof -
  have "list_all2 (\<lambda>m n. m = n \<or> m = 1 \<or> n = 1) (replicate (length s) 1) s"
    by (induction s) auto
  moreover have "map2 (\<lambda>m n. if m = 1 then n else m) (replicate (length s) 1) s = s"
    by (induction s) auto
  ultimately show ?thesis
    by (simp add: broadcast_shapes_def pad_shape_def)
qed

lemma fromfunction_map_item:
  "well_shaped a \<Longrightarrow> fromfunction (shape a) (\<lambda>idx. f (item a idx)) = map_array f a"
  by (cases a) (auto simp: fromfunction_def well_shaped_def item_def map_array_def
      length_indices ravel_nth_indices intro!: nth_equalityI)

lemma broadcast_op_scalar_right:
  "well_shaped a \<Longrightarrow> broadcast_op f a (scalar y) = Inr (map_array (\<lambda>x. f x y) a)"
proof -
  assume w: "well_shaped a"
  have "fromfunction (shape a) (\<lambda>idx. f (item a (operand_index (shape a) idx))
            (item (scalar y) (operand_index (shape (scalar y)) idx)))
      = fromfunction (shape a) (\<lambda>idx. f (item a idx) y)"
    by (rule fromfunction_cong) (simp add: operand_index_same item_scalar)
  then show ?thesis
    using fromfunction_map_item[OF w, of "\<lambda>x. f x y"]
    by (simp add: broadcast_op_def scalar_def broadcast_shapes_scalar_right)
qed

lemma broadcast_op_scalar_right_shape:
  "\<exists>r. broadcast_op f a (scalar y) = Inr r \<and> shape r = shape a"
  by (simp add: broadcast_op_def scalar_def broadcast_shapes_scalar_right shape_fromfunction)

lemma map_array_id: "map_array (\<lambda>x. x) a = a"
  by (cases a) (simp add: map_array_def)

section \<open>Rescaling weights\<close>

lemma underflow_bound_pos: "0 < underflow_bound"
  by (simp add: underflow_bound_def)

lemma underflow_bound_less_one: "underflow_bound < 1"
  by (simp add: underflow_bound_def)

lemma one_less_overflow_bound: "1 < overflow_bound"
proof -
  have "(2::real) ^ 970 * 2 \<le> 2 ^ 970 * 2 ^ 54"
    by (intro mult_left_mono) simp_all
  then have "(2::real) ^ 970 + 2 ^ 970 \<le> 2 ^ 1024"
    by (simp add: power_add[symmetric])
  moreover have "(1::real) < 2 ^ 970"
    by (rule one_less_power) simp_all
  ultimately show ?thesis
    by (simp add: overflow_bound_def)
qed

lemma py_float_pow_square:
  "py_float_pow x 2 =
     (if overflow_bound \<le> x\<^sup>2 then Inl OverflowError
      else if x\<^sup>2 \<le> underflow_bound then Inr 0
      else Inr (x\<^sup>2))"
  by (simp add: py_float_pow_def)

lemma py_truediv_array:
  assumes "well_shaped w"
  shows "py_truediv (NdArray w) (PyFloat d) = Inr (NdArray (map_array (\<lambda>v. v / d) w))"
  using broadcast_op_scalar_right[OF assms, of "(/)" d]
  by (simp add: py_truediv_def as_array_def true_divide_def and_then_def)

lemma py_truediv_array_returns:
  "\<exists>r. py_truediv (NdArray w) (PyFloat d) = Inr (NdArray r) \<and> shape r = shape w"
  using broadcast_op_scalar_right_shape[of "(/)" w d]
  by (auto simp add: py_truediv_def as_array_def true_divide_def and_then_def)

lemma py_float_pow_one: "py_float_pow 1 2 = Inr 1"
  using one_less_overflow_bound underflow_bound_less_one
  by (simp add: py_float_pow_square)

text \<open>
  \<^bold>\<open>C10.\<close> Rescaling with \<^verbatim>\<open>sigma_rescale = 1.0\<close>, the default of the pipeline, is the
  identity: for every (well-shaped) weight array \<open>w\<close>, \<^verbatim>\<open>rescale_weights(w, 1.0)\<close>
  returns \<open>w\<close>.
\<close>

theorem rescale_weights_one:
  fixes w :: "real ndarray"
  assumes "well_shaped w"
  shows "rescale_weights (NdArray w) 1 = Inr (NdArray w)"
  using py_truediv_array[OF assms, of 1]
  by (simp add: rescale_weights_def py_float_pow_one and_then_def map_array_id)

text \<open>The theorem at a 2 x 2 weight array.\<close>

theorem rescale_weights_one_witness:
  "well_shaped (NDArray [2, 2] [1, 2, 3, 4 :: real]) \<and>
   rescale_weights (NdArray (NDArray [2, 2] [1, 2, 3, 4 :: real])) 1
     = Inr (NdArray (NDArray [2, 2] [1, 2, 3, 4]))"
  using rescale_weights_one[of "NDArray [2, 2] [1, 2, 3, 4]"]
  by (simp add: well_shaped_def)

text \<open>
  \<^bold>\<open>C7, as amended.\<close> Python evaluates \<^verbatim>\<open>sigma_rescale**2\<close> first. When the square
  overflows, the call raises OverflowError. When the square is a nonzero float (it
  neither overflows nor rounds to zero), the result is \<^verbatim>\<open>weight / sigma_rescale**2\<close>,
  element by element for an array and as one number for a Python float. When the
  square is \<open>0.0\<close> (\<^verbatim>\<open>sigma_rescale\<close> is zero, or so small that its square rounds to zero),
  a Python float weight raises ZeroDivisionError, while an array weight raises nothing
  and an array of the same shape is returned.
\<close>

theorem rescale_weights_spec:
  fixes w :: "real ndarray" and x sigma_rescale :: real
  shows "(overflow_bound \<le> sigma_rescale\<^sup>2 \<longrightarrow>
            rescale_weights weight sigma_rescale = Inl OverflowError) \<and>
         (underflow_bound < sigma_rescale\<^sup>2 \<and> sigma_rescale\<^sup>2 < overflow_bound \<and>
          well_shaped w \<longrightarrow>
            rescale_weights (NdArray w) sigma_rescale
              = Inr (NdArray (map_array (\<lambda>v. v / sigma_rescale\<^sup>2) w))) \<and>
         (underflow_bound < sigma_rescale\<^sup>2 \<and> sigma_rescale\<^sup>2 < overflow_bound \<longrightarrow>
            rescale_weights (PyFloat x) sigma_rescale = Inr (PyFloat (x / sigma_rescale\<^sup>2))) \<and>
         (sigma_rescale\<^sup>2 \<le> underflow_bound \<longrightarrow>
            rescale_weights (PyFloat x) sigma_rescale = Inl ZeroDivisionError \<and>
            (\<exists>r. rescale_weights (NdArray w) sigma_rescale = Inr (NdArray r) \<and>
                 shape r = shape w))"
proof (intro conjI impI)
  assume "overflow_bound \<le> sigma_rescale\<^sup>2"
  then show "rescale_weights weight sigma_rescale = Inl OverflowError"
    by (simp add: rescale_weights_def py_float_pow_square and_then_def)
next
  assume "underflow_bound < sigma_rescale\<^sup>2 \<and> sigma_rescale\<^sup>2 < overflow_bound \<and> well_shaped w"
  then show "rescale_weights (NdArray w) sigma_rescale
      = Inr (NdArray (map_array (\<lambda>v. v / sigma_rescale\<^sup>2) w))"
    by (simp add: rescale_weights_def py_float_pow_square and_then_def py_truediv_array)
next
  assume "underflow_bound < sigma_rescale\<^sup>2 \<and> sigma_rescale\<^sup>2 < overflow_bound"
  moreover from this have "sigma_rescale\<^sup>2 \<noteq> 0"
    using underflow_bound_pos by auto
  ultimately show "rescale_weights (PyFloat x) sigma_rescale = Inr (PyFloat (x / sigma_rescale\<^sup>2))"
    by (simp add: rescale_weights_def py_float_pow_square and_then_def py_truediv_def)
next
  assume u: "sigma_rescale\<^sup>2 \<le> underflow_bound"
  then have "\<not> overflow_bound \<le> sigma_rescale\<^sup>2"
    using underflow_bound_less_one one_less_overflow_bound by linarith
  then have sq: "py_float_pow sigma_rescale 2 = Inr 0"
    using u by (simp add: py_float_pow_square)
  show "rescale_weights (PyFloat x) sigma_rescale = Inl ZeroDivisionError"
    by (simp add: rescale_weights_def sq and_then_def py_truediv_def)
  show "\<exists>r. rescale_weights (NdArray w) sigma_rescale = Inr (NdArray r) \<and> shape r = shape w"
    using py_truediv_array_returns[of w 0]
    by (simp add: rescale_weights_def sq and_then_def)
qed

text \<open>The theorem at the weights \<open>[2, 4]\<close> and \<open>8\<close> with \<^verbatim>\<open>sigma_rescale = 2\<close>, at
  \<^verbatim>\<open>sigma_rescale = 0\<close>, and at \<^verbatim>\<open>sigma_rescale = 2^600\<close>, whose square overflows.\<close>

theorem rescale_weights_spec_witness:
  "rescale_weights (NdArray (NDArray [2] [2, 4])) 2 = Inr (NdArray (NDArray [2] [1 / 2, 1])) \<and>
   rescale_weights (PyFloat 8) 2 = Inr (PyFloat 2) \<and>
   rescale_weights (PyFloat 8) 0 = Inl ZeroDivisionError \<and>
   (\<exists>r. rescale_weights (NdArray (NDArray [2] [2, 4])) 0 = Inr (NdArray r) \<and> shape r = [2]) \<and>
   rescale_weights (PyFloat 8) (2 ^ 600) = Inl OverflowError"
proof -
  have lo: "underflow_bound < (2::real)\<^sup>2"
    using underflow_bound_less_one by simp
  have hi: "(2::real)\<^sup>2 < overflow_bound"
  proof -
    have "(2::real) ^ 970 * 2 \<le> 2 ^ 970 * 2 ^ 54"
      by (intro mult_left_mono) simp_all
    then have "(2::real) ^ 970 + 2 ^ 970 \<le> 2 ^ 1024"
      by (simp add: power_add[symmetric])
    moreover have "(2::real) ^ 2 < 2 ^ 970"
      by (rule power_strict_increasing) simp_all
    ultimately show ?thesis
      by (simp add: overflow_bound_def)
  qed
  have zero: "(0::real)\<^sup>2 \<le> underflow_bound"
    using underflow_bound_pos by simp
  have big: "overflow_bound \<le> ((2::real) ^ 600)\<^sup>2"
  proof -
    have "(2::real) ^ 1024 \<le> 2 ^ 1200"
      by (rule power_increasing) simp_all
    then show ?thesis
      by (simp add: overflow_bound_def power_mult[symmetric])
  qed
  have w: "well_shaped (NDArray [2] [2, 4 :: real])"
    by (simp add: well_shaped_def)
  note a = rescale_weights_spec[of 2 "PyFloat 8" "NDArray [2] [2, 4]" 8]
  note b = rescale_weights_spec[of 0 "PyFloat 8" "NDArray [2] [2, 4]" 8]
  note c = rescale_weights_spec[of "2 ^ 600" "PyFloat 8" "NDArray [2] [2, 4]" 8]
  have 1: "rescale_weights (NdArray (NDArray [2] [2, 4])) 2 = Inr (NdArray (NDArray [2] [1 / 2, 1]))"
    using a lo hi w by (simp add: map_array_def)
  have 2: "rescale_weights (PyFloat 8) 2 = Inr (PyFloat 2)"
    using a lo hi by simp
  have 3: "rescale_weights (PyFloat 8) 0 = Inl ZeroDivisionError"
    and 4: "\<exists>r. rescale_weights (NdArray (NDArray [2] [2, 4])) 0 = Inr (NdArray r) \<and> shape r = [2]"
    using b zero by simp_all
  have 5: "rescale_weights (PyFloat 8) (2 ^ 600) = Inl OverflowError"
    using c big by blast
  show ?thesis using 1 2 3 4 5 by blast
qed

text \<open>The claim as stated fails: on the array \<open>[1.0]\<close> with \<^verbatim>\<open>sigma_rescale = 0\<close> the call
  does not end in an error.\<close>

theorem rescale_weights_zero_counterexample:
  "\<not> isl (rescale_weights (NdArray (NDArray [1] [1 :: real])) 0)"
proof -
  have "py_float_pow 0 2 = Inr 0"
    using underflow_bound_pos one_less_overflow_bound by (simp add: py_float_pow_square)
  then show ?thesis
    using py_truediv_array_returns[of "NDArray [1] [1 :: real]" 0]
    by (auto simp add: rescale_weights_def and_then_def)
qed

section \<open>Channel order: isdecreasing\<close>

lemma indices_1d: "indices [n] = map (\<lambda>i. [i]) [0..<n]"
  by simp

lemma item_1d: "shape a = [n] \<Longrightarrow> item a [i] = elems a ! i"
  by (simp add: item_def)

lemma in_bounds_1d: "in_bounds [n] idx \<longleftrightarrow> (\<exists>i<n. idx = [i])"
  by (auto simp: in_bounds_Cons in_bounds_Nil)

lemma np_all_map_fromfunction:
  "np_all (map_array P (fromfunction s f)) \<longleftrightarrow> (\<forall>idx. in_bounds s idx \<longrightarrow> P (f idx))"
  by (auto simp: np_all_def map_array_def fromfunction_def list_all_iff set_indices)

lemma len_array_1d: "shape a = n # s \<Longrightarrow> len_array a = Inr n"
  by (simp add: len_array_def)

lemma np_diff_1d:
  "shape a = [n] \<Longrightarrow>
   np_diff a = Inr (fromfunction [n - 1] (\<lambda>idx. item a (butlast idx @ [Suc (last idx)]) - item a idx))"
  by (simp add: np_diff_def)

lemma all_diffs_1d:
  fixes a :: "'a::{minus,zero,ord} ndarray"
  assumes "shape a = [n]"
  shows "(\<forall>idx. in_bounds [n - 1] idx \<longrightarrow> P (item a (butlast idx @ [Suc (last idx)]) - item a idx))
     \<longleftrightarrow> (\<forall>i. Suc i < n \<longrightarrow> P (elems a ! Suc i - elems a ! i))"
  using assms by (auto simp: in_bounds_1d item_1d less_diff_conv)

lemma isdecreasing_1d:
  fixes chan_freq :: "'a::{minus,zero,ord} ndarray"
  assumes "shape chan_freq = [n]"
  shows "isdecreasing chan_freq =
     (if n = 1 then Inr True
      else if \<forall>i. Suc i < n \<longrightarrow> elems chan_freq ! Suc i - elems chan_freq ! i < 0 then Inr True
      else if \<forall>i. Suc i < n \<longrightarrow> elems chan_freq ! Suc i - elems chan_freq ! i > 0 then Inr False
      else Inl (RuntimeError
           ''chan_freq array is neither strictly decreasing nor strictly increasing, investigate what went wrong.''
           []))"
proof -
  let ?diff = "fromfunction [n - 1]
      (\<lambda>idx. item chan_freq (butlast idx @ [Suc (last idx)]) - item chan_freq idx)"
  have neg: "np_all (map_array (\<lambda>d. d < 0) ?diff) \<longleftrightarrow>
      (\<forall>i. Suc i < n \<longrightarrow> elems chan_freq ! Suc i - elems chan_freq ! i < 0)"
    unfolding np_all_map_fromfunction by (rule all_diffs_1d[OF assms])
  have pos: "np_all (map_array (\<lambda>d. d > 0) ?diff) \<longleftrightarrow>
      (\<forall>i. Suc i < n \<longrightarrow> elems chan_freq ! Suc i - elems chan_freq ! i > 0)"
    unfolding np_all_map_fromfunction by (rule all_diffs_1d[OF assms])
  have "isdecreasing chan_freq =
     (if n = 1 then Inr True
      else if np_all (map_array (\<lambda>d. d < 0) ?diff) then Inr True
      else if np_all (map_array (\<lambda>d. d > 0) ?diff) then Inr False
      else Inl (RuntimeError
           ''chan_freq array is neither strictly decreasing nor strictly increasing, investigate what went wrong.''
           []))"
    using assms by (simp add: isdecreasing_def len_array_1d np_diff_1d and_then_def)
  then show ?thesis
    unfolding neg pos .
qed

text \<open>
  \<^bold>\<open>C5.\<close> On a one-dimensional array of \<open>n\<close> frequencies, \<^verbatim>\<open>isdecreasing\<close> returns True
  when \<open>n \<le> 1\<close>. For \<open>n > 1\<close> it returns True exactly when all first differences are
  strictly negative, False exactly when all are strictly positive, and raises exactly
  when the array is neither strictly decreasing nor strictly increasing.
\<close>

theorem isdecreasing_spec:
  fixes chan_freq :: "real ndarray"
  assumes "shape chan_freq = [n]"
  shows "(n \<le> 1 \<longrightarrow> isdecreasing chan_freq = Inr True) \<and>
         (1 < n \<longrightarrow>
            (isdecreasing chan_freq = Inr True \<longleftrightarrow>
               (\<forall>i. Suc i < n \<longrightarrow> elems chan_freq ! Suc i - elems chan_freq ! i < 0)) \<and>
            (isdecreasing chan_freq = Inr False \<longleftrightarrow>
               (\<forall>i. Suc i < n \<longrightarrow> elems chan_freq ! Suc i - elems chan_freq ! i > 0)) \<and>
            ((\<exists>e. isdecreasing chan_freq = Inl e) \<longleftrightarrow>
               \<not> (\<forall>i. Suc i < n \<longrightarrow> elems chan_freq ! Suc i - elems chan_freq ! i < 0) \<and>
               \<not> (\<forall>i. Suc i < n \<longrightarrow> elems chan_freq ! Suc i - elems chan_freq ! i > 0)))"
proof (intro conjI impI)
  assume "n \<le> 1"
  then have "n = 0 \<or> n = 1" by auto
  then show "isdecreasing chan_freq = Inr True"
    by (auto simp: isdecreasing_1d[OF assms])
next
  assume n: "1 < n"
  let ?d = "\<lambda>i. elems chan_freq ! Suc i - elems chan_freq ! i"
  have excl: "\<not> ((\<forall>i. Suc i < n \<longrightarrow> ?d i < 0) \<and> (\<forall>i. Suc i < n \<longrightarrow> ?d i > 0))"
  proof
    assume "(\<forall>i. Suc i < n \<longrightarrow> ?d i < 0) \<and> (\<forall>i. Suc i < n \<longrightarrow> ?d i > 0)"
    then have "?d 0 < 0" "?d 0 > 0" using n by auto
    then show False by simp
  qed
  show "isdecreasing chan_freq = Inr True \<longleftrightarrow> (\<forall>i. Suc i < n \<longrightarrow> ?d i < 0)"
    using n by (simp add: isdecreasing_1d[OF assms])
  show "isdecreasing chan_freq = Inr False \<longleftrightarrow> (\<forall>i. Suc i < n \<longrightarrow> ?d i > 0)"
    using n excl by (auto simp: isdecreasing_1d[OF assms])
  show "(\<exists>e. isdecreasing chan_freq = Inl e) \<longleftrightarrow>
          \<not> (\<forall>i. Suc i < n \<longrightarrow> ?d i < 0) \<and> \<not> (\<forall>i. Suc i < n \<longrightarrow> ?d i > 0)"
    using n by (auto simp: isdecreasing_1d[OF assms])
qed

lemma isdecreasing_examples:
  "isdecreasing (NDArray [3] [3, 2, 1 :: real]) = Inr True"
  "isdecreasing (NDArray [3] [1, 2, 3 :: real]) = Inr False"
  "isdecreasing (NDArray [3] [1, 3, 2 :: real]) = Inl (RuntimeError
     ''chan_freq array is neither strictly decreasing nor strictly increasing, investigate what went wrong.'' [])"
  "isdecreasing (NDArray [1] [5 :: real]) = Inr True"
  "isdecreasing (NDArray [0] ([] :: real list)) = Inr True"
  by (auto simp add: isdecreasing_1d numeral_2_eq_2 numeral_3_eq_3 All_less_Suc Ex_less_Suc less_Suc_eq_0_disj)

text \<open>The theorem at \<open>[3, 2, 1]\<close>, \<open>[1, 2, 3]\<close>, \<open>[1, 3, 2]\<close> and a single element.\<close>

theorem isdecreasing_spec_witness:
  "isdecreasing (NDArray [3] [3, 2, 1 :: real]) = Inr True \<and>
   isdecreasing (NDArray [3] [1, 2, 3 :: real]) = Inr False \<and>
   (\<exists>e. isdecreasing (NDArray [3] [1, 3, 2 :: real]) = Inl e) \<and>
   isdecreasing (NDArray [1] [5 :: real]) = Inr True"
proof -
  have a: "isdecreasing (NDArray [3] [3, 2, 1 :: real]) = Inr True"
    using isdecreasing_spec[of "NDArray [3] [3, 2, 1]" 3]
    by (simp add: numeral_3_eq_3 less_Suc_eq_0_disj)
  have b: "isdecreasing (NDArray [3] [1, 2, 3 :: real]) = Inr False"
    using isdecreasing_spec[of "NDArray [3] [1, 2, 3]" 3]
    by (simp add: numeral_3_eq_3 less_Suc_eq_0_disj)
  have c: "\<exists>e. isdecreasing (NDArray [3] [1, 3, 2 :: real]) = Inl e"
    using isdecreasing_spec[of "NDArray [3] [1, 3, 2]" 3]
    by (simp add: numeral_3_eq_3 less_Suc_eq_0_disj)
  have d: "isdecreasing (NDArray [1] [5 :: real]) = Inr True"
    using isdecreasing_spec[of "NDArray [1] [5]" 1] by simp
  show ?thesis using a b c d by simp
qed

section \<open>Autocorrelations\<close>

lemma broadcast_op_same_shape:
  assumes "shape a = s" "shape b = s"
  shows "broadcast_op f a b = Inr (fromfunction s (\<lambda>idx. f (item a idx) (item b idx)))"
proof -
  have "fromfunction s (\<lambda>idx. f (item a (operand_index s idx)) (item b (operand_index s idx)))
      = fromfunction s (\<lambda>idx. f (item a idx) (item b idx))"
    by (rule fromfunction_cong) (simp add: operand_index_same)
  then show ?thesis
    using assms by (simp add: broadcast_op_def broadcast_shapes_same)
qed

lemma fromfunction_1d: "fromfunction [n] g = NDArray [n] (map (\<lambda>i. g [i]) [0..<n])"
  by (simp add: fromfunction_def comp_def)

lemma foldl_plus_sum_list:
  fixes x :: "'a::monoid_add"
  shows "foldl (+) x xs = x + sum_list xs"
  by (induction xs arbitrary: x) (simp_all add: add.assoc)

lemma add_reduce_sum_list:
  fixes xs :: "'a::monoid_add list"
  shows "add_reduce xs = sum_list xs"
  by (cases xs) (simp_all add: foldl_plus_sum_list)

lemma sum_list_of_bool_nonneg: "0 \<le> sum_list (map of_bool bs :: int list)"
  by (induction bs) simp_all

lemma sum_list_of_bool_pos: "0 < sum_list (map of_bool bs :: int list) \<longleftrightarrow> True \<in> set bs"
proof (induction bs)
  case Nil
  then show ?case by simp
next
  case (Cons b bs)
  then show ?case
    using sum_list_of_bool_nonneg[of bs] by (cases b) auto
qed

lemma count_true_pos: "count_true a > 0 \<longleftrightarrow> True \<in> set (elems a)"
  by (simp add: count_true_def add_reduce_sum_list sum_list_of_bool_pos)

lemma where0_1d:
  "where0 (NDArray [n] (map P [0..<n])) =
     Inr (NDArray [length (filter P [0..<n])] (filter P [0..<n]))"
proof -
  have "filter (item (NDArray [n] (map P [0..<n]))) (map (\<lambda>i. [i]) [0..<n])
      = map (\<lambda>i. [i]) (filter P [0..<n])"
    unfolding filter_map by (rule arg_cong[where f = "map _"], rule filter_cong) (simp_all add: item_def)
  then show ?thesis
    by (simp add: where0_def indices_1d comp_def del: indices.simps)
qed

lemma get_crosscorrelation_indexes_1d:
  assumes "shape ant1 = [nvis]" "shape ant2 = [nvis]"
  shows "get_crosscorrelation_indexes ant1 ant2 =
     Inr (NDArray [length (filter (\<lambda>i. elems ant1 ! i \<noteq> elems ant2 ! i) [0..<nvis])]
            (filter (\<lambda>i. elems ant1 ! i \<noteq> elems ant2 ! i) [0..<nvis]))"
  using assms where0_1d[of nvis "\<lambda>i. elems ant1 ! i \<noteq> elems ant2 ! i"]
  by (simp add: get_crosscorrelation_indexes_def broadcast_op_same_shape[OF assms]
      fromfunction_1d and_then_def item_1d)

lemma contains_autocorrelations_1d:
  assumes "shape ant1 = [nvis]" "shape ant2 = [nvis]"
  shows "contains_autocorrelations ant1 ant2 = Inr (\<exists>i<nvis. elems ant1 ! i = elems ant2 ! i)"
  using assms
  by (auto simp add: contains_autocorrelations_def broadcast_op_same_shape[OF assms]
      fromfunction_1d and_then_def item_1d count_true_pos)

lemma filter_upt_full:
  "set (filter P [0..<n]) = {0..<n} \<longleftrightarrow> (\<forall>i<n. P i)"
proof
  assume h: "set (filter P [0..<n]) = {0..<n}"
  show "\<forall>i<n. P i"
  proof (intro allI impI)
    fix i assume "i < n"
    then have "i \<in> set (filter P [0..<n])" unfolding h by simp
    then show "P i" by simp
  qed
next
  assume "\<forall>i<n. P i"
  then have "filter P [0..<n] = [0..<n]" by simp
  then show "set (filter P [0..<n]) = {0..<n}" by simp
qed

text \<open>
  \<^bold>\<open>C9.\<close> For antenna arrays of equal length \<open>nvis\<close>, the index array of
  \<^verbatim>\<open>get_crosscorrelation_indexes\<close> lists, in strictly increasing order, the positions
  where the two antennas differ, and \<^verbatim>\<open>contains_autocorrelations\<close> returns False exactly
  when that array holds every position \<open>0 .. nvis - 1\<close>.
\<close>

theorem crosscorrelation_filter_consistent:
  assumes "shape ant1 = [nvis]" "shape ant2 = [nvis]"
  shows "\<exists>xc c. get_crosscorrelation_indexes ant1 ant2 = Inr xc \<and>
           contains_autocorrelations ant1 ant2 = Inr c \<and>
           shape xc = [length (elems xc)] \<and>
           elems xc = filter (\<lambda>i. elems ant1 ! i \<noteq> elems ant2 ! i) [0..<nvis] \<and>
           sorted_wrt (<) (elems xc) \<and>
           (c = False \<longleftrightarrow> set (elems xc) = {0..<nvis})"
proof -
  let ?xs = "filter (\<lambda>i. elems ant1 ! i \<noteq> elems ant2 ! i) [0..<nvis]"
  let ?xc = "NDArray [length ?xs] ?xs"
  let ?c = "\<exists>i<nvis. elems ant1 ! i = elems ant2 ! i"
  have 1: "get_crosscorrelation_indexes ant1 ant2 = Inr ?xc"
    by (rule get_crosscorrelation_indexes_1d[OF assms])
  have 2: "contains_autocorrelations ant1 ant2 = Inr ?c"
    by (rule contains_autocorrelations_1d[OF assms])
  have 3: "sorted_wrt (<) (elems ?xc)"
    unfolding ndarray.sel by (rule sorted_wrt_filter) simp
  have 4: "?c = False \<longleftrightarrow> set (elems ?xc) = {0..<nvis}"
    unfolding ndarray.sel filter_upt_full by blast
  have 5: "shape ?xc = [length (elems ?xc)]" "elems ?xc = ?xs"
    by simp_all
  show ?thesis
    using 1 2 3 4 5 by blast
qed

text \<open>The theorem at \<^verbatim>\<open>ant1 = [1, 2, 3]\<close>, \<^verbatim>\<open>ant2 = [2, 1, 3]\<close>: positions 0 and 1 are kept
  and an autocorrelation is reported.\<close>

theorem crosscorrelation_filter_consistent_witness:
  "get_crosscorrelation_indexes (NDArray [3] [1, 2, 3]) (NDArray [3] [2, 1, 3])
     = Inr (NDArray [2] [0, 1]) \<and>
   contains_autocorrelations (NDArray [3] [1, 2, 3]) (NDArray [3] [2, 1, 3]) = Inr True"
proof -
  let ?a = "NDArray [3] [1, 2, 3 :: int]" and ?b = "NDArray [3] [2, 1, 3 :: int]"
  have "\<exists>xc c. get_crosscorrelation_indexes ?a ?b = Inr xc \<and>
           contains_autocorrelations ?a ?b = Inr c \<and>
           shape xc = [length (elems xc)] \<and>
           elems xc = filter (\<lambda>i. elems ?a ! i \<noteq> elems ?b ! i) [0..<3] \<and>
           sorted_wrt (<) (elems xc) \<and>
           (c = False \<longleftrightarrow> set (elems xc) = {0..<3})"
    by (rule crosscorrelation_filter_consistent) simp_all
  then obtain xc c where
    xc: "get_crosscorrelation_indexes ?a ?b = Inr xc"
    and c: "contains_autocorrelations ?a ?b = Inr c"
    and sh: "shape xc = [length (elems xc)]"
    and el: "elems xc = filter (\<lambda>i. elems ?a ! i \<noteq> elems ?b ! i) [0..<3]"
    and iff: "c = False \<longleftrightarrow> set (elems xc) = {0..<3}"
    by blast
  have e: "elems xc = [0, 1]"
    unfolding el by (simp add: numeral_3_eq_3)
  then have "xc = NDArray [2] [0, 1]"
    using sh by (cases xc) simp
  moreover have "c"
  proof (rule ccontr)
    assume "\<not> c"
    then have "set (elems xc) = {0..<3}" using iff by simp
    then have "(2::nat) \<in> set (elems xc)" by simp
    then show False using e by simp
  qed
  ultimately show ?thesis using xc c by simp
qed

section \<open>Broadcasting weights over channels\<close>

lemma in_bounds_2d: "in_bounds [m, n] idx \<longleftrightarrow> (\<exists>i<m. \<exists>j<n. idx = [i, j])"
  by (auto simp: in_bounds_Cons in_bounds_Nil)

lemma in_bounds_2dI: "i < m \<Longrightarrow> j < n \<Longrightarrow> in_bounds [m, n] [i, j]"
  by (simp add: in_bounds_2d)

lemma in_bounds_1dI: "i < n \<Longrightarrow> in_bounds [n] [i]"
  by (simp add: in_bounds_1d)

lemma fromfunction_cong_1d:
  "(\<And>i. i < n \<Longrightarrow> f [i] = g [i]) \<Longrightarrow> fromfunction [n] f = fromfunction [n] g"
  by (rule fromfunction_cong) (auto simp: in_bounds_1d)

lemma fromfunction_cong_2d:
  "(\<And>i j. i < m \<Longrightarrow> j < n \<Longrightarrow> f [i, j] = g [i, j]) \<Longrightarrow>
   fromfunction [m, n] f = fromfunction [m, n] g"
  by (rule fromfunction_cong) (auto simp: in_bounds_2d)

lemma broadcast_shapes_row_col: "broadcast_shapes [1, n] [m, 1] = Some [m, n]"
  by (simp add: broadcast_shapes_def pad_shape_def)

lemma broadcast_shapes_vec_col: "broadcast_shapes [n] [m, 1] = Some [m, n]"
  by (simp add: broadcast_shapes_def pad_shape_def)

lemma broadcast_shapes_mat_col: "broadcast_shapes [m, n] [m, 1] = Some [m, n]"
  by (simp add: broadcast_shapes_def pad_shape_def)

lemma broadcast_op_row_col:
  assumes "shape a = [1, n]" "shape b = [m, 1]"
  shows "broadcast_op f a b =
     Inr (fromfunction [m, n] (\<lambda>idx. f (item a [0, idx ! 1]) (item b [idx ! 0, 0])))"
  unfolding broadcast_op_def assms broadcast_shapes_row_col option.case
  by (rule arg_cong[where f = Inr], rule fromfunction_cong_2d) (auto simp add: operand_index_def)

lemma broadcast_op_vec_col:
  assumes "shape a = [n]" "shape b = [m, 1]"
  shows "broadcast_op f a b =
     Inr (fromfunction [m, n] (\<lambda>idx. f (item a [idx ! 1]) (item b [idx ! 0, 0])))"
  unfolding broadcast_op_def assms broadcast_shapes_vec_col option.case
  by (rule arg_cong[where f = Inr], rule fromfunction_cong_2d) (auto simp add: operand_index_def)

lemma broadcast_op_mat_col:
  assumes "shape a = [m, n]" "shape b = [m, 1]"
  shows "broadcast_op f a b =
     Inr (fromfunction [m, n] (\<lambda>idx. f (item a idx) (item b [idx ! 0, 0])))"
  unfolding broadcast_op_def assms broadcast_shapes_mat_col option.case
  by (rule arg_cong[where f = Inr], rule fromfunction_cong_2d) (auto simp add: operand_index_def)

lemma broadcast_op_scalar_left:
  assumes "shape a = []"
  shows "broadcast_op f a b = Inr (fromfunction (shape b) (\<lambda>idx. f (item a []) (item b idx)))"
  unfolding broadcast_op_def assms broadcast_shapes_scalar_left option.case
  by (rule arg_cong[where f = Inr], rule fromfunction_cong)
     (simp add: operand_index_same operand_index_Nil)

lemma broadcast_op_scalar_right':
  assumes "shape b = []"
  shows "broadcast_op f a b = Inr (fromfunction (shape a) (\<lambda>idx. f (item a idx) (item b [])))"
  unfolding broadcast_op_def assms broadcast_shapes_scalar_right option.case
  by (rule arg_cong[where f = Inr], rule fromfunction_cong)
     (simp add: operand_index_same operand_index_Nil)

lemma item_ones: "in_bounds s idx \<Longrightarrow> item (ones s) idx = 1"
  by (simp add: ones_def item_fromfunction)

lemma shape_ones: "shape (ones s) = s"
  by (simp add: ones_def shape_fromfunction)

lemma getitem_fromfunction:
  "i < n \<Longrightarrow> getitem (fromfunction (n # s) f) i = Inr (fromfunction s (\<lambda>idx. f (i # idx)))"
  unfolding getitem_def shape_fromfunction list.case
  by (simp, rule fromfunction_cong) (simp add: item_fromfunction in_bounds_Cons)

lemma fromfunction_1d_item:
  "well_shaped a \<Longrightarrow> shape a = [n] \<Longrightarrow> fromfunction [n] (\<lambda>idx. item a [idx ! 0]) = a"
proof -
  assume w: "well_shaped a" and s: "shape a = [n]"
  have "fromfunction [n] (\<lambda>idx. item a [idx ! 0]) = fromfunction [n] (item a)"
    by (rule fromfunction_cong_1d) simp
  then show ?thesis using fromfunction_item[OF w] s by simp
qed

lemma item_row: "item (NDArray [k, n] e) [0, j] = e ! j"
  by (simp add: item_def)

lemma broadcast_weights_1d_value:
  fixes weight :: "'a::monoid_mult ndarray"
  assumes "shape weight = [nvis]" "chan_axis < length data_shape"
  shows "broadcast_weights weight (PyTuple data_shape) chan_axis =
     Inr (fromfunction [data_shape ! chan_axis, nvis] (\<lambda>idx. item weight [idx ! 1]))"
proof -
  let ?n = "data_shape ! chan_axis"
  have e: "expand_dims 0 1 weight = Inr (NDArray [1, nvis] (elems weight))"
    using assms by (simp add: expand_dims_def)
  have m: "multiply (NDArray [1, nvis] (elems weight)) (ones [?n, 1]) =
       Inr (fromfunction [?n, nvis] (\<lambda>idx. item weight [idx ! 1]))"
    unfolding multiply_def
    by (subst broadcast_op_row_col[where n = nvis and m = ?n])
       (auto simp: shape_ones item_ones in_bounds_2d item_row item_1d[OF assms(1)]
          intro!: fromfunction_cong_2d)
  show ?thesis
    using assms by (simp add: broadcast_weights_def subscript_def and_then_def e m del: One_nat_def)
qed

text \<open>
  \<^bold>\<open>C4, as amended.\<close> For every one-dimensional weight array of shape \<open>[nvis]\<close> and every
  \<^verbatim>\<open>data_shape\<close> tuple that has an entry at \<^verbatim>\<open>chan_axis\<close>, \<^verbatim>\<open>broadcast_weights\<close> returns an
  array of shape \<open>[nchan, nvis]\<close> with \<open>nchan = data_shape[chan_axis]\<close>, and every channel
  slice of it equals the input weight.
\<close>

theorem broadcast_weights_vector:
  fixes weight :: "'a::monoid_mult ndarray"
  assumes "well_shaped weight" "shape weight = [nvis]" "chan_axis < length data_shape"
  shows "\<exists>r. broadcast_weights weight (PyTuple data_shape) chan_axis = Inr r \<and>
           shape r = [data_shape ! chan_axis, nvis] \<and> well_shaped r \<and>
           (\<forall>c < data_shape ! chan_axis. getitem r c = Inr weight)"
proof -
  let ?r = "fromfunction [data_shape ! chan_axis, nvis] (\<lambda>idx. item weight [idx ! 1])"
  have "getitem ?r c = Inr weight" if "c < data_shape ! chan_axis" for c
    using that fromfunction_1d_item[OF assms(1,2)] by (simp add: getitem_fromfunction)
  then show ?thesis
    using broadcast_weights_1d_value[OF assms(2,3)]
    by (simp add: shape_fromfunction well_shaped_fromfunction)
qed

text \<open>The theorem at the weights \<open>[1, 2, 3]\<close> and \<^verbatim>\<open>data_shape = (2, 3)\<close>.\<close>

theorem broadcast_weights_vector_witness:
  "well_shaped (NDArray [3] [1, 2, 3 :: real]) \<and>
   (\<exists>r. broadcast_weights (NDArray [3] [1, 2, 3 :: real]) (PyTuple [2, 3]) 0 = Inr r \<and>
        shape r = [2, 3] \<and> well_shaped r \<and>
        getitem r 0 = Inr (NDArray [3] [1, 2, 3]) \<and>
        getitem r 1 = Inr (NDArray [3] [1, 2, 3]))"
proof -
  let ?w = "NDArray [3] [1, 2, 3 :: real]"
  have w: "well_shaped ?w" by (simp add: well_shaped_def)
  have "\<exists>r. broadcast_weights ?w (PyTuple [2, 3]) 0 = Inr r \<and>
           shape r = [[2, 3] ! 0, 3] \<and> well_shaped r \<and>
           (\<forall>c < [2, 3] ! 0. getitem r c = Inr ?w)"
    by (rule broadcast_weights_vector) (simp_all add: w)
  then show ?thesis using w by auto
qed

lemma broadcast_weights_example:
  "broadcast_weights (NDArray [3] [1, 2, 3 :: real]) (PyTuple [2, 3]) 0
     = Inr (NDArray [2, 3] [1, 2, 3, 1, 2, 3])"
  by (simp add: broadcast_weights_1d_value fromfunction_def item_def numeral_2_eq_2
      numeral_3_eq_3)

text \<open>The claim as stated fails on a dual-polarization weight: with weight of shape
  \<open>(2, 1)\<close> and three channels numpy cannot broadcast \<open>(1, 2, 1)\<close> against \<open>(3, 1)\<close>.\<close>

theorem broadcast_weights_dual_polarization_counterexample:
  "broadcast_weights (NDArray [2, 1] [1, 2 :: real]) (PyTuple [2, 3, 1]) 1 = Inl ValueError"
  by (simp add: broadcast_weights_def subscript_def and_then_def expand_dims_def multiply_def
      broadcast_op_def broadcast_shapes_def pad_shape_def shape_ones)

section \<open>Baselines in kilolambda\<close>

lemma item_col: "item (NDArray [m, 1] e) [i, 0] = e ! i"
  by (simp add: item_def)

lemma expand_dims_column:
  "shape a = [n] \<Longrightarrow> expand_dims 1 0 a = Inr (NDArray [n, 1] (elems a))"
  by (simp add: expand_dims_def)

lemma multiply_ones:
  assumes "shape u = [nvis]"
  shows "multiply u (ones [nchan, 1]) = Inr (ones_product nchan nvis u)"
  unfolding multiply_def ones_product_def
  by (rule broadcast_op_vec_col[OF assms]) (simp add: shape_ones)

lemma wavelengths_value:
  "true_divide (scalar c_value) (NDArray [nchan, 1] (elems chan_freq))
     = Inr (wavelength_column nchan chan_freq)"
  unfolding true_divide_def wavelength_column_def
  by (subst broadcast_op_scalar_left) (simp_all add: scalar_def)

lemma scaled_rows:
  assumes "shape u = [nvis]"
  shows "and_then (multiply (scalar (1 / 1000)) (ones_product nchan nvis u))
           (\<lambda>scaled. true_divide scaled (wavelength_column nchan chan_freq))
       = Inr (converted nchan nvis chan_freq u)"
proof -
  let ?uu = "ones_product nchan nvis u"
  let ?wl = "wavelength_column nchan chan_freq"
  let ?sc = "fromfunction [nchan, nvis] (\<lambda>idx. item (scalar (1 / 1000 :: real)) [] * item ?uu idx)"
  have su: "shape ?uu = [nchan, nvis]" and sw: "shape ?wl = [nchan, 1]"
    by (simp_all add: ones_product_def wavelength_column_def shape_fromfunction)
  have 3: "multiply (scalar (1 / 1000)) ?uu = Inr ?sc"
    unfolding multiply_def
    by (subst broadcast_op_scalar_left) (simp_all add: scalar_def su)
  have 4: "true_divide ?sc ?wl =
      Inr (fromfunction [nchan, nvis] (\<lambda>idx. item ?sc idx / item ?wl [idx ! 0, 0]))"
    unfolding true_divide_def
    by (rule broadcast_op_mat_col) (simp_all add: shape_fromfunction sw)
  have 5: "fromfunction [nchan, nvis] (\<lambda>idx. item ?sc idx / item ?wl [idx ! 0, 0])
      = converted nchan nvis chan_freq u"
    unfolding converted_def ones_product_def wavelength_column_def
    by (rule fromfunction_cong_2d)
       (simp add: item_fromfunction in_bounds_2dI item_scalar item_ones item_col
          item_1d[OF assms] del: One_nat_def)
  show ?thesis
    unfolding 3 and_then_def sum.case 4 5 ..
qed

lemma convert_baselines_vector:
  fixes u :: "real ndarray"
  assumes "shape u = [nvis]"
  shows "convert_baselines (NdArray u) (NdArray (scalar f))
       = Inr (NdArray (fromfunction [nvis] (\<lambda>idx. 1 / 1000 * elems u ! (idx ! 0) / (c_value / f))))"
proof -
  let ?wl = "fromfunction [] (\<lambda>idx. item (scalar c_value) [] / item (scalar f) idx)"
  let ?sc = "fromfunction [nvis] (\<lambda>idx. item (scalar (1 / 1000 :: real)) [] * item u idx)"
  have 1: "true_divide (scalar c_value) (scalar f) = Inr ?wl"
    unfolding true_divide_def by (subst broadcast_op_scalar_left) (simp_all add: scalar_def)
  have 2: "multiply (scalar (1 / 1000)) u = Inr ?sc"
    unfolding multiply_def by (subst broadcast_op_scalar_left) (simp_all add: scalar_def assms)
  have 3: "true_divide ?sc ?wl = Inr (fromfunction [nvis] (\<lambda>idx. item ?sc idx / item ?wl []))"
    unfolding true_divide_def
    by (subst broadcast_op_scalar_right') (simp_all add: shape_fromfunction)
  have 4: "fromfunction [nvis] (\<lambda>idx. item ?sc idx / item ?wl [])
      = fromfunction [nvis] (\<lambda>idx. 1 / 1000 * elems u ! (idx ! 0) / (c_value / f))"
    by (rule fromfunction_cong_1d)
       (simp add: item_fromfunction in_bounds_1dI in_bounds_Nil item_scalar item_1d[OF assms])
  show ?thesis
    by (simp add: convert_baselines_def py_truediv_def py_mul_def as_array_def and_then_def
        1 2 3 4)
qed

lemma getitem_vector:
  "shape a = [n] \<Longrightarrow> i < n \<Longrightarrow> getitem a i = Inr (scalar (elems a ! i))"
  by (simp add: getitem_def fromfunction_def scalar_def item_def)

lemma and_then_Inr: "and_then (Inr x) f = f x"
  by (simp add: and_then_def)

lemma and_then_Inl: "and_then (Inl e) f = Inl e"
  by (simp add: and_then_def)

lemma broadcast_and_convert_value:
  assumes "shape u = [nvis]" "shape v = [nvis]" "shape chan_freq = [nchan]"
  shows "broadcast_and_convert_baselines u v chan_freq
       = Inr (converted nchan nvis chan_freq u, converted nchan nvis chan_freq v)"
  by (simp only: broadcast_and_convert_baselines_def len_array_1d[OF assms(3)] Let_def
      multiply_ones[OF assms(1)] multiply_ones[OF assms(2)] expand_dims_column[OF assms(3)]
      wavelengths_value and_then_Inr scaled_rows[OF assms(1)] scaled_rows[OF assms(2)])

lemma getitem_converted:
  assumes "i < nchan"
  shows "getitem (converted nchan nvis chan_freq w) i = Inr (fromfunction [nvis] (\<lambda>idx.
           1 / 1000 * elems w ! (idx ! 0) / (c_value / elems chan_freq ! i)))"
  unfolding converted_def getitem_fromfunction[OF assms]
  by (rule arg_cong[where f = Inr], rule fromfunction_cong_1d) simp

text \<open>
  \<^bold>\<open>C8.\<close> For baseline vectors \<open>u\<close>, \<open>v\<close> of length \<open>nvis\<close> and \<open>nchan\<close> channel frequencies,
  both outputs of \<^verbatim>\<open>broadcast_and_convert_baselines\<close> have shape \<open>[nchan, nvis]\<close>, and row
  \<open>i\<close> of each equals \<^verbatim>\<open>convert_baselines\<close> applied to the baseline vector and the single
  frequency \<^verbatim>\<open>chan_freq[i]\<close>.
\<close>

theorem broadcast_and_convert_rows:
  assumes "shape u = [nvis]" "shape v = [nvis]" "shape chan_freq = [nchan]"
  shows "\<exists>uu vv. broadcast_and_convert_baselines u v chan_freq = Inr (uu, vv) \<and>
           shape uu = [nchan, nvis] \<and> shape vv = [nchan, nvis] \<and>
           (\<forall>i<nchan. \<exists>f row_u row_v.
               getitem chan_freq i = Inr f \<and>
               getitem uu i = Inr row_u \<and> getitem vv i = Inr row_v \<and>
               convert_baselines (NdArray u) (NdArray f) = Inr (NdArray row_u) \<and>
               convert_baselines (NdArray v) (NdArray f) = Inr (NdArray row_v))"
proof (intro exI conjI allI impI)
  show "broadcast_and_convert_baselines u v chan_freq
       = Inr (converted nchan nvis chan_freq u, converted nchan nvis chan_freq v)"
    by (rule broadcast_and_convert_value[OF assms])
  show "shape (converted nchan nvis chan_freq u) = [nchan, nvis]"
    and "shape (converted nchan nvis chan_freq v) = [nchan, nvis]"
    by (simp_all add: converted_def shape_fromfunction)
next
  fix i assume i: "i < nchan"
  show "getitem chan_freq i = Inr (scalar (elems chan_freq ! i))"
    by (rule getitem_vector[OF assms(3) i])
  show "getitem (converted nchan nvis chan_freq u) i = Inr (fromfunction [nvis] (\<lambda>idx.
           1 / 1000 * elems u ! (idx ! 0) / (c_value / elems chan_freq ! i)))"
    by (rule getitem_converted[OF i])
  show "getitem (converted nchan nvis chan_freq v) i = Inr (fromfunction [nvis] (\<lambda>idx.
           1 / 1000 * elems v ! (idx ! 0) / (c_value / elems chan_freq ! i)))"
    by (rule getitem_converted[OF i])
  show "convert_baselines (NdArray u) (NdArray (scalar (elems chan_freq ! i)))
      = Inr (NdArray (fromfunction [nvis] (\<lambda>idx.
           1 / 1000 * elems u ! (idx ! 0) / (c_value / elems chan_freq ! i))))"
    by (rule convert_baselines_vector[OF assms(1)])
  show "convert_baselines (NdArray v) (NdArray (scalar (elems chan_freq ! i)))
      = Inr (NdArray (fromfunction [nvis] (\<lambda>idx.
           1 / 1000 * elems v ! (idx ! 0) / (c_value / elems chan_freq ! i))))"
    by (rule convert_baselines_vector[OF assms(2)])
qed

text \<open>The theorem at one baseline and two channels, read at row 1.\<close>

theorem broadcast_and_convert_rows_witness:
  "\<exists>uu vv. broadcast_and_convert_baselines (NDArray [1] [3]) (NDArray [1] [6]) (NDArray [2] [1, 2])
             = Inr (uu, vv) \<and>
     shape uu = [2, 1] \<and> shape vv = [2, 1] \<and>
     (\<exists>f row_u row_v.
        getitem (NDArray [2] [1, 2]) 1 = Inr f \<and>
        getitem uu 1 = Inr row_u \<and> getitem vv 1 = Inr row_v \<and>
        convert_baselines (NdArray (NDArray [1] [3])) (NdArray f) = Inr (NdArray row_u) \<and>
        convert_baselines (NdArray (NDArray [1] [6])) (NdArray f) = Inr (NdArray row_v))"
proof -
  let ?u = "NDArray [1] [3 :: real]" and ?v = "NDArray [1] [6 :: real]"
  let ?cf = "NDArray [2] [1, 2 :: real]"
  have "\<exists>uu vv. broadcast_and_convert_baselines ?u ?v ?cf = Inr (uu, vv) \<and>
           shape uu = [2, 1] \<and> shape vv = [2, 1] \<and>
           (\<forall>i<2. \<exists>f row_u row_v.
               getitem ?cf i = Inr f \<and>
               getitem uu i = Inr row_u \<and> getitem vv i = Inr row_v \<and>
               convert_baselines (NdArray ?u) (NdArray f) = Inr (NdArray row_u) \<and>
               convert_baselines (NdArray ?v) (NdArray f) = Inr (NdArray row_v))"
    by (rule broadcast_and_convert_rows) simp_all
  then obtain uu vv where
    r: "broadcast_and_convert_baselines ?u ?v ?cf = Inr (uu, vv)"
    and s: "shape uu = [2, 1]" "shape vv = [2, 1]"
    and rows: "\<forall>i<2. \<exists>f row_u row_v.
               getitem ?cf i = Inr f \<and>
               getitem uu i = Inr row_u \<and> getitem vv i = Inr row_v \<and>
               convert_baselines (NdArray ?u) (NdArray f) = Inr (NdArray row_u) \<and>
               convert_baselines (NdArray ?v) (NdArray f) = Inr (NdArray row_v)"
    by blast
  have "(1::nat) < 2" by simp
  with rows have "\<exists>f row_u row_v.
               getitem ?cf 1 = Inr f \<and>
               getitem uu 1 = Inr row_u \<and> getitem vv 1 = Inr row_v \<and>
               convert_baselines (NdArray ?u) (NdArray f) = Inr (NdArray row_u) \<and>
               convert_baselines (NdArray ?v) (NdArray f) = Inr (NdArray row_v)"
    by blast
  with r s show ?thesis by blast
qed

section \<open>Polarization average of the data\<close>

lemma in_bounds_insert_axis:
  assumes "k < length s" "i < s ! k" "in_bounds (remove_axis k s) idx"
  shows "in_bounds s (insert_axis k i idx)"
proof -
  have len: "length idx = length s - 1"
    using in_bounds_length[OF assms(3)] assms(1) by (simp add: remove_axis_def)
  have "list_all2 (<) idx (take k s @ drop (Suc k) s)"
    using assms(3) by (simp add: in_bounds_def remove_axis_def)
  then obtain us vs where uv: "idx = us @ vs" "length us = length (take k s)"
      "list_all2 (<) us (take k s)" "list_all2 (<) vs (drop (Suc k) s)"
    unfolding list_all2_append2 by blast
  have "length us = k" using uv(2) assms(1) by simp
  then have "take k idx = us" "drop k idx = vs" using uv(1) by simp_all
  then have a: "list_all2 (<) (take k idx) (take k s)" and b: "list_all2 (<) (drop k idx) (drop (Suc k) s)"
    using uv(3,4) by simp_all
  have "list_all2 (<) (take k idx @ i # drop k idx) (take k s @ s ! k # drop (Suc k) s)"
    using a b assms(2) by (simp add: list_all2_appendI)
  then show ?thesis
    using assms(1) by (simp add: in_bounds_def insert_axis_def id_take_nth_drop[symmetric])
qed

lemma np_sum_pair:
  fixes a :: "'a::{zero,plus} ndarray"
  assumes "k < length (shape a)" "shape a ! k = 2"
  shows "np_sum a k = Inr (fromfunction (remove_axis k (shape a))
           (\<lambda>idx. item a (insert_axis k 0 idx) + item a (insert_axis k 1 idx)))"
  using assms by (auto simp add: np_sum_def numeral_2_eq_2)

lemma remove_axis_0: "remove_axis 0 (n # s) = s"
  by (simp add: remove_axis_def)

lemma insert_axis_0: "insert_axis 0 i idx = i # idx"
  by (simp add: insert_axis_def)

lemma in_bounds_3d:
  "in_bounds [l, m, n] idx \<longleftrightarrow> (\<exists>h<l. \<exists>i<m. \<exists>j<n. idx = [h, i, j])"
  by (auto simp: in_bounds_Cons in_bounds_Nil)

lemma fromfunction_cong_3d:
  "(\<And>h i j. h < l \<Longrightarrow> i < m \<Longrightarrow> j < n \<Longrightarrow> f [h, i, j] = g [h, i, j]) \<Longrightarrow>
   fromfunction [l, m, n] f = fromfunction [l, m, n] g"
  by (rule fromfunction_cong) (auto simp: in_bounds_3d)

lemma broadcast_shapes_cube_slab: "broadcast_shapes [l, m, n] [l, 1, n] = Some [l, m, n]"
  by (simp add: broadcast_shapes_def pad_shape_def)

lemma broadcast_shapes_mat_vec: "broadcast_shapes [m, n] [n] = Some [m, n]"
  by (simp add: broadcast_shapes_def pad_shape_def)

lemma broadcast_op_cube_slab:
  assumes "shape a = [l, m, n]" "shape b = [l, 1, n]"
  shows "broadcast_op f a b =
     Inr (fromfunction [l, m, n] (\<lambda>idx. f (item a idx) (item b [idx ! 0, 0, idx ! 2])))"
  unfolding broadcast_op_def assms broadcast_shapes_cube_slab option.case
  by (rule arg_cong[where f = Inr], rule fromfunction_cong_3d)
     (auto simp add: operand_index_def numeral_2_eq_2)

lemma broadcast_op_mat_vec:
  assumes "shape a = [m, n]" "shape b = [n]"
  shows "broadcast_op f a b =
     Inr (fromfunction [m, n] (\<lambda>idx. f (item a idx) (item b [idx ! 1])))"
  unfolding broadcast_op_def assms broadcast_shapes_mat_vec option.case
  by (rule arg_cong[where f = Inr], rule fromfunction_cong_2d)
     (auto simp add: operand_index_def)

text \<open>The weighted mean of the two polarizations as an array.\<close>

lemma average_data_polarization_same_shape:
  fixes data weight :: "'a::{zero,plus,times,inverse} ndarray"
  assumes "shape data = s" "shape weight = s" "k < length s" "s ! k = 2"
  shows "average_data_polarization data weight k =
     Inr (fromfunction (remove_axis k s) (\<lambda>idx.
        (item data (insert_axis k 0 idx) * item weight (insert_axis k 0 idx) +
         item data (insert_axis k 1 idx) * item weight (insert_axis k 1 idx)) /
        (item weight (insert_axis k 0 idx) + item weight (insert_axis k 1 idx))))"
proof -
  let ?r = "remove_axis k s"
  let ?norm = "fromfunction ?r (\<lambda>idx.
      item weight (insert_axis k 0 idx) + item weight (insert_axis k 1 idx))"
  let ?weighted = "fromfunction s (\<lambda>idx. item data idx * item weight idx)"
  let ?total = "fromfunction ?r (\<lambda>idx.
      item ?weighted (insert_axis k 0 idx) + item ?weighted (insert_axis k 1 idx))"
  have 1: "average_weight_polarization weight k = Inr ?norm"
    unfolding average_weight_polarization_def
    using np_sum_pair[of k weight] assms by simp
  have 2: "multiply data weight = Inr ?weighted"
    unfolding multiply_def by (rule broadcast_op_same_shape[OF assms(1,2)])
  have 3: "np_sum ?weighted k = Inr ?total"
    using np_sum_pair[of k ?weighted] assms by (simp add: shape_fromfunction)
  have 4: "true_divide ?total ?norm =
      Inr (fromfunction ?r (\<lambda>idx. item ?total idx / item ?norm idx))"
    unfolding true_divide_def
    by (rule broadcast_op_same_shape) (simp_all add: shape_fromfunction)
  have 5: "fromfunction ?r (\<lambda>idx. item ?total idx / item ?norm idx) =
      fromfunction ?r (\<lambda>idx.
        (item data (insert_axis k 0 idx) * item weight (insert_axis k 0 idx) +
         item data (insert_axis k 1 idx) * item weight (insert_axis k 1 idx)) /
        (item weight (insert_axis k 0 idx) + item weight (insert_axis k 1 idx)))"
  proof (rule fromfunction_cong)
    fix idx assume b: "in_bounds ?r idx"
    have "in_bounds s (insert_axis k 0 idx)" "in_bounds s (insert_axis k 1 idx)"
      using assms(3,4) b by (simp_all add: in_bounds_insert_axis)
    then show "item ?total idx / item ?norm idx =
        (item data (insert_axis k 0 idx) * item weight (insert_axis k 0 idx) +
         item data (insert_axis k 1 idx) * item weight (insert_axis k 1 idx)) /
        (item weight (insert_axis k 0 idx) + item weight (insert_axis k 1 idx))"
      using b by (simp add: item_fromfunction)
  qed
  have "average_data_polarization data weight k =
      and_then (average_weight_polarization weight k) (\<lambda>norm_w.
          and_then (multiply data weight) (\<lambda>weighted.
          and_then (np_sum weighted k) (\<lambda>total. true_divide total norm_w)))"
    using assms by (simp add: average_data_polarization_def)
  then show ?thesis
    by (simp only: 1 2 3 4 5 and_then_Inr)
qed

lemma average_data_polarization_channelized:
  fixes data weight :: "'a::{zero,plus,times,inverse} ndarray"
  assumes "shape data = [2, nchan, nvis]" "shape weight = [2, nvis]"
  shows "average_data_polarization data weight 0 =
     Inr (fromfunction [nchan, nvis] (\<lambda>idx.
        (item data (0 # idx) * item weight [0, idx ! 1] +
         item data (1 # idx) * item weight [1, idx ! 1]) /
        (item weight [0, idx ! 1] + item weight [1, idx ! 1])))"
proof -
  let ?norm = "fromfunction [nvis] (\<lambda>idx. item weight (0 # idx) + item weight (1 # idx))"
  let ?w3 = "NDArray [2, 1, nvis] (elems weight)"
  let ?weighted = "fromfunction [2, nchan, nvis]
      (\<lambda>idx. item data idx * item ?w3 [idx ! 0, 0, idx ! 2])"
  let ?total = "fromfunction [nchan, nvis] (\<lambda>idx.
      item ?weighted (0 # idx) + item ?weighted (1 # idx))"
  have 1: "average_weight_polarization weight 0 = Inr ?norm"
    unfolding average_weight_polarization_def
    using np_sum_pair[of 0 weight] assms(2) by (simp add: remove_axis_0 insert_axis_0)
  have e: "expand_dims 1 1 weight = Inr ?w3"
    using assms(2) by (simp add: expand_dims_def)
  have 2: "multiply data ?w3 = Inr ?weighted"
    unfolding multiply_def by (rule broadcast_op_cube_slab[OF assms(1)]) simp
  have 3: "np_sum ?weighted 0 = Inr ?total"
    using np_sum_pair[of 0 ?weighted]
    by (simp add: shape_fromfunction remove_axis_0 insert_axis_0)
  have 4: "true_divide ?total ?norm =
      Inr (fromfunction [nchan, nvis] (\<lambda>idx. item ?total idx / item ?norm [idx ! 1]))"
    unfolding true_divide_def
    by (rule broadcast_op_mat_vec) (simp_all add: shape_fromfunction)
  have w3: "item (NDArray [a, Suc 0, nvis] (elems weight)) [p, 0, v] = item weight [p, v]" for a p v
    using assms(2) by (simp add: item_def)
  have 5: "fromfunction [nchan, nvis] (\<lambda>idx. item ?total idx / item ?norm [idx ! 1]) =
      fromfunction [nchan, nvis] (\<lambda>idx.
        (item data (0 # idx) * item weight [0, idx ! 1] +
         item data (1 # idx) * item weight [1, idx ! 1]) /
        (item weight [0, idx ! 1] + item weight [1, idx ! 1]))"
    by (rule fromfunction_cong_2d)
       (simp add: item_fromfunction in_bounds_2dI in_bounds_1dI in_bounds_3d w3 numeral_2_eq_2)
  have "average_data_polarization data weight 0 =
      and_then (average_weight_polarization weight 0) (\<lambda>norm_w.
          and_then (expand_dims 1 1 weight) (\<lambda>weight3.
          and_then (multiply data weight3) (\<lambda>weighted.
          and_then (np_sum weighted 0) (\<lambda>total. true_divide total norm_w))))"
    using assms by (simp add: average_data_polarization_def)
  then show ?thesis
    by (simp only: 1 e 2 3 4 5 and_then_Inr)
qed

text \<open>
  \<^bold>\<open>C2, as amended.\<close> When the polarization axis of the data has length 2 and the weight
  has the shape of the data, \<^verbatim>\<open>average_data_polarization\<close> returns, at every index of
  the remaining axes, the sum of data times weight over the two polarizations divided
  by the sum of the two weights. The same holds for data of shape \<open>[2, nchan, nvis]\<close>
  with weight of shape \<open>[2, nvis]\<close> and polarization axis 0, the weight being used for
  every channel.
\<close>

theorem average_data_polarization_weighted_mean:
  fixes data weight :: "'a::{zero,plus,times,inverse} ndarray"
  shows
    "(shape weight = shape data \<and> k < length (shape data) \<and> shape data ! k = 2 \<longrightarrow>
        (\<exists>r. average_data_polarization data weight k = Inr r \<and>
           shape r = remove_axis k (shape data) \<and> well_shaped r \<and>
           (\<forall>idx. in_bounds (remove_axis k (shape data)) idx \<longrightarrow>
              item r idx =
                (item data (insert_axis k 0 idx) * item weight (insert_axis k 0 idx) +
                 item data (insert_axis k 1 idx) * item weight (insert_axis k 1 idx)) /
                (item weight (insert_axis k 0 idx) + item weight (insert_axis k 1 idx))))) \<and>
     (shape data = [2, nchan, nvis] \<and> shape weight = [2, nvis] \<longrightarrow>
        (\<exists>r. average_data_polarization data weight 0 = Inr r \<and>
           shape r = [nchan, nvis] \<and> well_shaped r \<and>
           (\<forall>c<nchan. \<forall>v<nvis.
              item r [c, v] =
                (item data [0, c, v] * item weight [0, v] +
                 item data [1, c, v] * item weight [1, v]) /
                (item weight [0, v] + item weight [1, v]))))"
proof (intro conjI impI)
  assume "shape weight = shape data \<and> k < length (shape data) \<and> shape data ! k = 2"
  then have a: "shape data = shape data" "shape weight = shape data"
      "k < length (shape data)" "shape data ! k = 2"
    by simp_all
  show "\<exists>r. average_data_polarization data weight k = Inr r \<and>
           shape r = remove_axis k (shape data) \<and> well_shaped r \<and>
           (\<forall>idx. in_bounds (remove_axis k (shape data)) idx \<longrightarrow>
              item r idx =
                (item data (insert_axis k 0 idx) * item weight (insert_axis k 0 idx) +
                 item data (insert_axis k 1 idx) * item weight (insert_axis k 1 idx)) /
                (item weight (insert_axis k 0 idx) + item weight (insert_axis k 1 idx)))"
    unfolding average_data_polarization_same_shape[OF a]
    by (simp add: shape_fromfunction well_shaped_fromfunction item_fromfunction)
next
  assume "shape data = [2, nchan, nvis] \<and> shape weight = [2, nvis]"
  then have b: "shape data = [2, nchan, nvis]" "shape weight = [2, nvis]"
    by simp_all
  show "\<exists>r. average_data_polarization data weight 0 = Inr r \<and>
           shape r = [nchan, nvis] \<and> well_shaped r \<and>
           (\<forall>c<nchan. \<forall>v<nvis.
              item r [c, v] =
                (item data [0, c, v] * item weight [0, v] +
                 item data [1, c, v] * item weight [1, v]) /
                (item weight [0, v] + item weight [1, v]))"
    unfolding average_data_polarization_channelized[OF b]
    by (simp add: shape_fromfunction well_shaped_fromfunction item_fromfunction in_bounds_2dI)
qed

text \<open>The theorem at data \<open>[[1], [3]]\<close> with weights \<open>[[1], [1]]\<close>, where the result is
  \<open>[2]\<close>, and at channelized data \<open>[[[1], [3]], [[5], [7]]]\<close> with weights \<open>[[1], [3]]\<close>.\<close>

theorem average_data_polarization_weighted_mean_witness:
  "average_data_polarization (NDArray [2, 1] [1, 3 :: complex]) (NDArray [2, 1] [1, 1]) 0
     = Inr (NDArray [1] [2]) \<and>
   average_data_polarization (NDArray [2, 2, 1] [1, 3, 5, 7 :: complex]) (NDArray [2, 1] [1, 3]) 0
     = Inr (NDArray [2, 1] [4, 6])"
proof (rule conjI)
  let ?d = "NDArray [2, 1] [1, 3 :: complex]" and ?w = "NDArray [2, 1] [1, 1 :: complex]"
  have "shape ?w = shape ?d \<and> 0 < length (shape ?d) \<and> shape ?d ! 0 = 2"
    by simp
  with average_data_polarization_weighted_mean[of ?w ?d 0]
  obtain r where r: "average_data_polarization ?d ?w 0 = Inr r"
    and s: "shape r = remove_axis 0 (shape ?d)" and w: "well_shaped r"
    and v: "\<forall>idx. in_bounds (remove_axis 0 (shape ?d)) idx \<longrightarrow>
              item r idx =
                (item ?d (insert_axis 0 0 idx) * item ?w (insert_axis 0 0 idx) +
                 item ?d (insert_axis 0 1 idx) * item ?w (insert_axis 0 1 idx)) /
                (item ?w (insert_axis 0 0 idx) + item ?w (insert_axis 0 1 idx))"
    by blast
  have s1: "shape r = [1]" using s by (simp add: remove_axis_0)
  have "in_bounds (remove_axis 0 (shape ?d)) [0]"
    by (simp add: remove_axis_0 in_bounds_1d)
  with v have "item r [0] =
                (item ?d (insert_axis 0 0 [0]) * item ?w (insert_axis 0 0 [0]) +
                 item ?d (insert_axis 0 1 [0]) * item ?w (insert_axis 0 1 [0])) /
                (item ?w (insert_axis 0 0 [0]) + item ?w (insert_axis 0 1 [0]))"
    by blast
  then have i: "item r [0] = 2"
    by (simp add: insert_axis_0 item_def)
  have "length (elems r) = 1" using w s1 by (simp add: well_shaped_def)
  then obtain x where x: "elems r = [x]"
    by (cases "elems r") simp_all
  then have "r = NDArray [1] [2]"
    using s1 i by (cases r) (simp add: item_def)
  then show "average_data_polarization ?d ?w 0 = Inr (NDArray [1] [2])"
    using r by simp
next
  let ?d = "NDArray [2, 2, 1] [1, 3, 5, 7 :: complex]" and ?w = "NDArray [2, 1] [1, 3 :: complex]"
  have "shape ?d = [2, 2, 1] \<and> shape ?w = [2, 1]"
    by simp
  with average_data_polarization_weighted_mean[of ?w ?d _ 2 1]
  obtain r where r: "average_data_polarization ?d ?w 0 = Inr r"
    and s: "shape r = [2, 1]" and w: "well_shaped r"
    and v: "\<forall>c<2. \<forall>v<1.
              item r [c, v] =
                (item ?d [0, c, v] * item ?w [0, v] + item ?d [1, c, v] * item ?w [1, v]) /
                (item ?w [0, v] + item ?w [1, v])"
    by blast
  have "item r [0, 0] =
      (item ?d [0, 0, 0] * item ?w [0, 0] + item ?d [1, 0, 0] * item ?w [1, 0]) /
      (item ?w [0, 0] + item ?w [1, 0])"
    and "item r [1, 0] =
      (item ?d [0, 1, 0] * item ?w [0, 0] + item ?d [1, 1, 0] * item ?w [1, 0]) /
      (item ?w [0, 0] + item ?w [1, 0])"
    using v by simp_all
  then have i: "item r [0, 0] = 4" "item r [1, 0] = 6"
    by (simp_all add: item_def)
  have "length (elems r) = 2" using w s by (simp add: well_shaped_def)
  then obtain x y where x: "elems r = [x, y]"
    by (cases "elems r"; cases "tl (elems r)") auto
  then have "r = NDArray [2, 1] [4, 6]"
    using s i by (cases r) (simp add: item_def)
  then show "average_data_polarization ?d ?w 0 = Inr (NDArray [2, 1] [4, 6])"
    using r by simp
qed

text \<open>The claim as stated fails for arrays of equal rank whose shapes numpy cannot
  broadcast: data of shape \<open>(2, 2)\<close> with weight of shape \<open>(2, 3)\<close>.\<close>

theorem average_data_polarization_same_rank_counterexample:
  "average_data_polarization (NDArray [2, 2] [1, 2, 3, 4 :: complex])
     (NDArray [2, 3] [1, 1, 1, 1, 1, 1]) 0 = Inl ValueError"
  by (simp add: average_data_polarization_def average_weight_polarization_def np_sum_def
      and_then_def multiply_def broadcast_op_def broadcast_shapes_def pad_shape_def)

text \<open>
  \<^bold>\<open>C6, as amended.\<close> When the ranks of data and weight are not one of the two
  recognized combinations, \<^verbatim>\<open>average_data_polarization\<close> never returns a result, and
  the error is decided in this order: IndexError when the polarization axis is not an
  axis of the data; AssertionError when that axis of the data does not have length 2;
  the RuntimeError whose message is formatted with both shapes when numpy can sum the
  weight over the polarization axis (the weight has that axis, or the weight is 0-d and
  the axis is 0); numpy's AxisError from the weight sum otherwise.
\<close>

theorem average_data_polarization_shape_mismatch:
  fixes data weight :: "'a::{zero,plus,times,inverse} ndarray"
  assumes "length (shape data) \<noteq> length (shape weight)"
    and "\<not> (length (shape data) = 3 \<and> length (shape weight) = 2)"
  shows "(\<exists>e. average_data_polarization data weight k = Inl e) \<and>
         average_data_polarization data weight k =
           (if \<not> k < length (shape data) then Inl IndexError
            else if shape data ! k \<noteq> 2
              then Inl (AssertionError ''Not recognized as a dual-polarization dataset'')
            else if k < length (shape weight) \<or> (shape weight = [] \<and> k = 0)
              then Inl (RuntimeError
                ''I don't know what to do with provided data and weight arrays with shapes {:} and {:}, respectively''
                [shape data, shape weight])
            else Inl AxisError)"
proof -
  have sum: "average_weight_polarization weight k =
      (if k < length (shape weight)
       then Inr (fromfunction (remove_axis k (shape weight)) (\<lambda>idx.
             add_reduce (map (\<lambda>j. item weight (insert_axis k j idx)) [0..<shape weight ! k])))
       else if shape weight = [] \<and> k = 0 then Inr (scalar (item weight []))
       else Inl AxisError)"
    by (auto simp add: average_weight_polarization_def np_sum_def)
  have run: "average_data_polarization data weight k =
           (if \<not> k < length (shape data) then Inl IndexError
            else if shape data ! k \<noteq> 2
              then Inl (AssertionError ''Not recognized as a dual-polarization dataset'')
            else if k < length (shape weight) \<or> (shape weight = [] \<and> k = 0)
              then Inl (RuntimeError
                ''I don't know what to do with provided data and weight arrays with shapes {:} and {:}, respectively''
                [shape data, shape weight])
            else Inl AxisError)"
    using assms unfolding average_data_polarization_def sum
    by (auto simp add: and_then_def)
  show ?thesis
    unfolding run by simp
qed

text \<open>The theorem on each of its branches: an axis the data does not have; data of
  shape \<open>(3,)\<close>; data of shape \<open>(2,)\<close> with weight of shape \<open>(2, 1)\<close> and with a 0-d
  weight; data of shape \<open>(1, 2)\<close> with weight of shape \<open>(3,)\<close> on axis 1.\<close>

theorem average_data_polarization_shape_mismatch_witness:
  "average_data_polarization (NDArray [2] [1, 3 :: complex]) (NDArray [2, 1] [1, 1]) 5 =
     Inl IndexError \<and>
   average_data_polarization (NDArray [3] [1, 2, 3 :: complex]) (NDArray [3, 1] [1, 1, 1]) 0 =
     Inl (AssertionError ''Not recognized as a dual-polarization dataset'') \<and>
   average_data_polarization (NDArray [2] [1, 3 :: complex]) (NDArray [2, 1] [1, 1]) 0 =
     Inl (RuntimeError
       ''I don't know what to do with provided data and weight arrays with shapes {:} and {:}, respectively''
       [[2], [2, 1]]) \<and>
   average_data_polarization (NDArray [2] [1, 3 :: complex]) (NDArray [] [1]) 0 =
     Inl (RuntimeError
       ''I don't know what to do with provided data and weight arrays with shapes {:} and {:}, respectively''
       [[2], []]) \<and>
   average_data_polarization (NDArray [1, 2] [1, 3 :: complex]) (NDArray [3] [1, 1, 1]) 1 =
     Inl AxisError"
  using average_data_polarization_shape_mismatch
      [of "NDArray [2] [1, 3 :: complex]" "NDArray [2, 1] [1, 1]" 5]
    average_data_polarization_shape_mismatch
      [of "NDArray [3] [1, 2, 3 :: complex]" "NDArray [3, 1] [1, 1, 1]" 0]
    average_data_polarization_shape_mismatch
      [of "NDArray [2] [1, 3 :: complex]" "NDArray [2, 1] [1, 1]" 0]
    average_data_polarization_shape_mismatch
      [of "NDArray [2] [1, 3 :: complex]" "NDArray [] [1]" 0]
    average_data_polarization_shape_mismatch
      [of "NDArray [1, 2] [1, 3 :: complex]" "NDArray [3] [1, 1, 1]" 1]
  by simp

text \<open>The claim as stated fails where the assertion comes first: data of shape \<open>(3,)\<close>
  with a 0-d weight ends in the AssertionError, whose message names no shape.\<close>

theorem average_data_polarization_assertion_counterexample:
  "average_data_polarization (NDArray [3] [1, 2, 3 :: complex]) (NDArray [] [1]) 0 =
     Inl (AssertionError ''Not recognized as a dual-polarization dataset'')"
  by (simp add: average_data_polarization_def)

section \<open>Channel canonicalization\<close>

lemma broadcast_op_scalars: "broadcast_op f (scalar a) (scalar b) = Inr (scalar (f a b))"
  by (simp add: broadcast_op_def scalar_def broadcast_shapes_def pad_shape_def
      fromfunction_def operand_index_def item_def)

lemma truth_scalar: "truth (scalar b) = Inr b"
  by (simp add: truth_def scalar_def)

lemma item_flip:
  "in_bounds (shape a) idx \<Longrightarrow>
   item (flip k a) idx = item a (idx[k := shape a ! k - 1 - idx ! k])"
  by (simp add: flip_def item_fromfunction)

lemma shape_flip: "shape (flip k a) = shape a"
  by (simp add: flip_def shape_fromfunction)

lemma increasing_test:
  fixes chan_freq :: "real ndarray"
  assumes "shape chan_freq = [n]" "1 < n"
  shows "and_then (getitem chan_freq 1) (\<lambda>second.
         and_then (getitem chan_freq 0) (\<lambda>first.
         and_then (broadcast_op (>) second first) truth))
       = Inr (item chan_freq [0] < item chan_freq [1])"
  using assms
  by (simp add: getitem_vector[OF assms(1)] and_then_Inr broadcast_op_scalars truth_scalar
      item_1d[OF assms(1)])

lemma slice_reversed_ok:
  "nslices \<le> length (shape a) \<Longrightarrow> slice_reversed k nslices a = Inr (flip k a)"
  by (simp add: slice_reversed_def)

lemma get_channel_sorted_data_value:
  assumes "shape (chan_freq_in q) = [n]" "1 < n"
    and "length (shape (data_in q)) = 3" "length (shape (model_data_in q)) = 3"
      "length (shape (flag_in q)) = 3"
  shows "get_channel_sorted_data q =
     (if item (chan_freq_in q) [0] < item (chan_freq_in q) [1]
      then Inr (flip 0 (chan_freq_in q), flip 1 (data_in q), flip 1 (model_data_in q),
                flip 1 (flag_in q))
      else Inr (chan_freq_in q, data_in q, model_data_in q, flag_in q))"
proof -
  have c: "slice_reversed 0 1 (chan_freq_in q) = Inr (flip 0 (chan_freq_in q))"
    by (rule slice_reversed_ok) (simp add: assms(1))
  have d: "slice_reversed 1 3 (data_in q) = Inr (flip 1 (data_in q))"
    by (rule slice_reversed_ok) (simp add: assms(3))
  have m: "slice_reversed 1 3 (model_data_in q) = Inr (flip 1 (model_data_in q))"
    by (rule slice_reversed_ok) (simp add: assms(4))
  have f: "slice_reversed 1 3 (flag_in q) = Inr (flip 1 (flag_in q))"
    by (rule slice_reversed_ok) (simp add: assms(5))
  show ?thesis
    by (simp only: get_channel_sorted_data_def Let_def len_array_1d[OF assms(1)] and_then_Inr
        assms(2) if_True increasing_test[OF assms(1,2)] c d m f)
qed

lemma strictly_increasing_less:
  fixes x :: "nat \<Rightarrow> real"
  assumes "\<forall>i. Suc i < n \<longrightarrow> x i < x (Suc i)" "i < j" "j < n"
  shows "x i < x j"
  using assms(2,3)
proof (induction j)
  case 0
  then show ?case by simp
next
  case (Suc j)
  have step: "x j < x (Suc j)" using assms(1) Suc.prems(2) by simp
  show ?case
  proof (cases "i = j")
    case True
    then show ?thesis using step by simp
  next
    case False
    then have "x i < x j" using Suc by simp
    then show ?thesis using step by simp
  qed
qed

lemma strictly_increasing_inj:
  fixes x :: "nat \<Rightarrow> real"
  assumes "\<forall>i. Suc i < n \<longrightarrow> x i < x (Suc i)" "i < n" "j < n" "x i = x j"
  shows "i = j"
proof (rule ccontr)
  assume "i \<noteq> j"
  then have "i < j \<or> j < i" by auto
  then have "x i < x j \<or> x j < x i"
    using strictly_increasing_less[OF assms(1)] assms(2,3) by blast
  then show False using assms(4) by simp
qed

lemma strictly_decreasing_inj:
  fixes x :: "nat \<Rightarrow> real"
  assumes "\<forall>i. Suc i < n \<longrightarrow> x (Suc i) < x i" "i < n" "j < n" "x i = x j"
  shows "i = j"
proof -
  have "\<forall>i. Suc i < n \<longrightarrow> - x i < - x (Suc i)" using assms(1) by simp
  moreover have "- x i = - x j" using assms(4) by simp
  ultimately show ?thesis
    using strictly_increasing_inj[of n "\<lambda>i. - x i" i j] assms(2,3) by blast
qed

lemma item_flip_vector:
  "shape a = [n] \<Longrightarrow> i < n \<Longrightarrow> item (flip 0 a) [i] = item a [n - 1 - i]"
  by (simp add: item_flip in_bounds_1d)

lemma item_flip_channel:
  "shape a = [p, n, v] \<Longrightarrow> h < p \<Longrightarrow> i < n \<Longrightarrow> j < v \<Longrightarrow>
   item (flip 1 a) [h, i, j] = item a [h, n - 1 - i, j]"
  by (simp add: item_flip in_bounds_3d)

text \<open>
  \<^bold>\<open>C3.\<close> For \<open>n > 1\<close> strictly monotonic channel frequencies and data, model data and
  flags of shape \<open>[p, n, v]\<close>, \<^verbatim>\<open>get_channel_sorted_data\<close> returns arrays of the same
  shapes. The returned frequencies are strictly decreasing. If the input frequencies
  are increasing, the four arrays are the inputs reversed along the channel axis.
  In every case each returned frequency is an input frequency, and the entries of the
  returned arrays at channel \<open>i\<close> are the input entries at the channel of the same
  frequency.
\<close>

theorem channel_sorted_canonical:
  assumes cf: "shape (chan_freq_in q) = [n]" and n: "1 < n"
    and mono: "(\<forall>i. Suc i < n \<longrightarrow> item (chan_freq_in q) [i] < item (chan_freq_in q) [Suc i]) \<or>
               (\<forall>i. Suc i < n \<longrightarrow> item (chan_freq_in q) [Suc i] < item (chan_freq_in q) [i])"
    and d: "shape (data_in q) = [p, n, v]"
    and m: "shape (model_data_in q) = [p, n, v]"
    and f: "shape (flag_in q) = [p, n, v]"
  shows "\<exists>chan_freq data model_data flag.
     get_channel_sorted_data q = Inr (chan_freq, data, model_data, flag) \<and>
     shape chan_freq = [n] \<and> shape data = [p, n, v] \<and>
     shape model_data = [p, n, v] \<and> shape flag = [p, n, v] \<and>
     (\<forall>i. Suc i < n \<longrightarrow> item chan_freq [Suc i] < item chan_freq [i]) \<and>
     ((\<forall>i. Suc i < n \<longrightarrow> item (chan_freq_in q) [i] < item (chan_freq_in q) [Suc i]) \<longrightarrow>
        chan_freq = flip 0 (chan_freq_in q) \<and> data = flip 1 (data_in q) \<and>
        model_data = flip 1 (model_data_in q) \<and> flag = flip 1 (flag_in q) \<and>
        (\<forall>i<n. item chan_freq [i] = item (chan_freq_in q) [n - 1 - i])) \<and>
     (\<forall>i<n. \<exists>j<n. item chan_freq [i] = item (chan_freq_in q) [j]) \<and>
     (\<forall>i<n. \<forall>j<n. item chan_freq [i] = item (chan_freq_in q) [j] \<longrightarrow>
        (\<forall>a<p. \<forall>b<v.
           item data [a, i, b] = item (data_in q) [a, j, b] \<and>
           item model_data [a, i, b] = item (model_data_in q) [a, j, b] \<and>
           item flag [a, i, b] = item (flag_in q) [a, j, b]))"
proof -
  let ?x = "\<lambda>i. item (chan_freq_in q) [i]"
  let ?inc = "\<forall>i. Suc i < n \<longrightarrow> ?x i < ?x (Suc i)"
  let ?dec = "\<forall>i. Suc i < n \<longrightarrow> ?x (Suc i) < ?x i"
  have ranks: "length (shape (data_in q)) = 3" "length (shape (model_data_in q)) = 3"
      "length (shape (flag_in q)) = 3"
    using d m f by simp_all
  note run = get_channel_sorted_data_value[OF cf n ranks]
  show ?thesis
  proof (cases "?x 0 < ?x 1")
    case True
    have inc: ?inc
    proof (rule ccontr)
      assume "\<not> ?inc"
      then have ?dec using mono by blast
      then have "?x (Suc 0) < ?x 0" using n by simp
      then show False using True by simp
    qed
    have r: "get_channel_sorted_data q =
        Inr (flip 0 (chan_freq_in q), flip 1 (data_in q), flip 1 (model_data_in q),
             flip 1 (flag_in q))"
      using run True by simp
    have fl: "item (flip 0 (chan_freq_in q)) [i] = ?x (n - 1 - i)" if "i < n" for i
      using that by (rule item_flip_vector[OF cf])
    have dec': "item (flip 0 (chan_freq_in q)) [Suc i] < item (flip 0 (chan_freq_in q)) [i]"
      if "Suc i < n" for i
    proof -
      have "Suc (n - 1 - Suc i) = n - 1 - i" using that by simp
      moreover have "Suc (n - 1 - Suc i) < n" using that by simp
      ultimately have "?x (n - 1 - Suc i) < ?x (n - 1 - i)"
        using inc by metis
      then show ?thesis using that by (simp add: fl)
    qed
    have same: "item (flip 1 (data_in q)) [a, i, b] = item (data_in q) [a, j, b] \<and>
           item (flip 1 (model_data_in q)) [a, i, b] = item (model_data_in q) [a, j, b] \<and>
           item (flip 1 (flag_in q)) [a, i, b] = item (flag_in q) [a, j, b]"
      if "i < n" "j < n" "item (flip 0 (chan_freq_in q)) [i] = ?x j" "a < p" "b < v"
      for i j a b
    proof -
      have "?x (n - 1 - i) = ?x j" using that(1,3) by (simp add: fl)
      moreover have "n - 1 - i < n" using that(1) by simp
      ultimately have j: "j = n - 1 - i"
        using strictly_increasing_inj[OF inc _ that(2)] by blast
      show ?thesis
        unfolding j
        by (intro conjI item_flip_channel[OF d that(4,1,5)] item_flip_channel[OF m that(4,1,5)]
            item_flip_channel[OF f that(4,1,5)])
    qed
    have ex: "\<exists>j<n. item (flip 0 (chan_freq_in q)) [i] = ?x j" if "i < n" for i
    proof (intro exI conjI)
      show "n - 1 - i < n" using that by simp
      show "item (flip 0 (chan_freq_in q)) [i] = ?x (n - 1 - i)" using that by (rule fl)
    qed
    show ?thesis
      unfolding r
      using dec' fl same ex
      by (simp add: shape_flip cf d m f)
  next
    case False
    have dec: ?dec
    proof (rule ccontr)
      assume "\<not> ?dec"
      then have ?inc using mono by blast
      then have "?x 0 < ?x (Suc 0)" using n by simp
      then show False using False by simp
    qed
    then have notinc: "\<not> ?inc"
      using n by (metis One_nat_def order_less_asym)
    have r: "get_channel_sorted_data q =
        Inr (chan_freq_in q, data_in q, model_data_in q, flag_in q)"
      using run False by simp
    have same: "i = j" if "i < n" "j < n" "?x i = ?x j" for i j
      using strictly_decreasing_inj[OF dec that] .
    show ?thesis
      unfolding r
      using dec notinc same
      by (auto simp add: cf d m f)
  qed
qed

lemma flip_example_vector: "flip 0 (NDArray [2] [1, 2 :: real]) = NDArray [2] [2, 1]"
  by (simp add: flip_def fromfunction_def item_def numeral_2_eq_2)

lemma flip_example_cube:
  "flip 1 (NDArray [2, 2, 3] [x1, x2, x3, x4, x5, x6, x7, x8, x9, x10, x11, x12]) =
     NDArray [2, 2, 3] [x4, x5, x6, x1, x2, x3, x10, x11, x12, x7, x8, x9]"
  by (simp add: flip_def fromfunction_def item_def numeral_2_eq_2 numeral_3_eq_3)

text \<open>The theorem at the synthetic query: two increasing channels are swapped.\<close>

theorem channel_sorted_canonical_witness:
  "get_channel_sorted_data example_query =
     Inr (NDArray [2] [2, 1],
          NDArray [2, 2, 3] [4, 5, 6, 1, 2, 3, 10, 11, 12, 7, 8, 9],
          NDArray [2, 2, 3] [4, 5, 6, 1, 2, 3, 10, 11, 12, 7, 8, 9],
          NDArray [2, 2, 3]
            [False, False, False, True, False, False, False, False, False, False, False, False])"
proof -
  let ?q = example_query
  have sh: "shape (chan_freq_in ?q) = [2]" "shape (data_in ?q) = [2, 2, 3]"
      "shape (model_data_in ?q) = [2, 2, 3]" "shape (flag_in ?q) = [2, 2, 3]"
    by (simp_all add: example_query_def)
  have inc: "\<forall>i. Suc i < 2 \<longrightarrow> item (chan_freq_in ?q) [i] < item (chan_freq_in ?q) [Suc i]"
    by (simp add: example_query_def item_def numeral_2_eq_2)
  then have mono:
    "(\<forall>i. Suc i < 2 \<longrightarrow> item (chan_freq_in ?q) [i] < item (chan_freq_in ?q) [Suc i]) \<or>
     (\<forall>i. Suc i < 2 \<longrightarrow> item (chan_freq_in ?q) [Suc i] < item (chan_freq_in ?q) [i])"
    by blast
  have n: "(1::nat) < 2" by simp
  from channel_sorted_canonical[OF sh(1) n mono sh(2) sh(3) sh(4)] inc
  obtain chan_freq data model_data flag where
    r: "get_channel_sorted_data ?q = Inr (chan_freq, data, model_data, flag)"
    and v: "chan_freq = flip 0 (chan_freq_in ?q)" "data = flip 1 (data_in ?q)"
      "model_data = flip 1 (model_data_in ?q)" "flag = flip 1 (flag_in ?q)"
    by blast
  show ?thesis
    unfolding r v
    by (simp add: example_query_def flip_example_vector flip_example_cube del: One_nat_def)
qed

section \<open>The pipeline\<close>

text \<open>The pipeline never returns a record, and its call \<^verbatim>\<open>broadcast_weights(weight, nchan)\<close>
  passes an integer where the function subscripts a tuple.\<close>

lemma get_processed_visibilities_raises:
  "get_processed_visibilities q sigma_rescale model_data \<noteq> Inr r"
  by (simp add: get_processed_visibilities_def and_then_def split: sum.splits prod.splits)

lemma broadcast_weights_int_shape:
  "broadcast_weights weight (PyInt nchan) chan_axis = Inl TypeError"
  by (simp add: broadcast_weights_def subscript_def and_then_def)

lemma get_channel_sorted_data_example:
  "get_channel_sorted_data example_query =
     Inr (flip 0 (chan_freq_in example_query), flip 1 (data_in example_query),
          flip 1 (model_data_in example_query), flip 1 (flag_in example_query))"
proof -
  have "get_channel_sorted_data example_query =
     (if item (chan_freq_in example_query) [0] < item (chan_freq_in example_query) [1]
      then Inr (flip 0 (chan_freq_in example_query), flip 1 (data_in example_query),
                flip 1 (model_data_in example_query), flip 1 (flag_in example_query))
      else Inr (chan_freq_in example_query, data_in example_query,
                model_data_in example_query, flag_in example_query))"
    by (rule get_channel_sorted_data_value[where n = 2]) (simp_all add: example_query_def)
  moreover have "item (chan_freq_in example_query) [0] < item (chan_freq_in example_query) [1]"
    by (simp add: example_query_def item_def)
  ultimately show ?thesis by simp
qed

lemma unpack3_example:
  "\<exists>uu vv ww. unpack3 (uvw_in example_query) = Inr (uu, vv, ww)"
  by (simp add: unpack3_def example_query_def getitem_def and_then_def)

text \<open>
  \<^bold>\<open>C1.\<close> The claim expects a record with the keys frequencies, uu, vv, data, model_data,
  flag and weight. On the synthetic query (two increasing channels, two polarizations,
  three baselines, one of them an autocorrelation) the function raises NameError at
  the call of \<^verbatim>\<open>broadcast_baselines\<close>.
\<close>

theorem get_processed_visibilities_example:
  "get_processed_visibilities example_query 1 False = Inl (NameError ''broadcast_baselines'')"
proof -
  obtain uu vv ww where u: "unpack3 (uvw_in example_query) = Inr (uu, vv, ww)"
    using unpack3_example by blast
  have l: "len_array (flip 0 (chan_freq_in example_query)) = Inr 2"
    by (simp add: len_array_def shape_flip example_query_def)
  show ?thesis
    by (simp add: get_processed_visibilities_def get_channel_sorted_data_example and_then_Inr l u)
qed

end
